theory Spec2Isabelle
  imports
    Complex_Main
    "HOL-Library.AList"
    "HOL-Library.Multiset"
    "HOL-Library.Char_ord"
    "HOL-Library.List_Lexorder"
begin

section \<open>Values, strings and dictionaries\<close>

text \<open>
  The translator works on JSON documents read into Python values. A Python \<open>str\<close> is
  modelled as a \<open>string\<close> holding its UTF-8 bytes, so that the Chinese log and error
  texts of the source can be written down (each as the bytes of its characters). The
  values of a localisation document are strings; the merged reference may hold a list of
  candidate strings, and the reserved entry \<open>__core_keys__\<close> holds a list of keys.
  \<open>Bool\<close> stands for a JSON value that is neither a string nor a list.
\<close>

datatype pyval = Str string | StrList "string list" | Bool bool

text \<open>
  A Python \<open>dict\<close> keeps its keys in insertion order: an association list whose keys
  are distinct. \<open>d[k] = v\<close> is \<open>AList.update k v d\<close>: it replaces the value in place
  when the key is there and appends the entry otherwise.
\<close>

type_synonym 'v dict = "(string \<times> 'v) list"

definition py_dict :: "(string \<times> 'v) list \<Rightarrow> 'v dict" where
  "py_dict items = foldl (\<lambda>d (k, v). AList.update k v d) [] items"

definition py_update :: "'v dict \<Rightarrow> 'v dict \<Rightarrow> 'v dict" where
  "py_update d other = foldl (\<lambda>d (k, v). AList.update k v d) d other"

definition core_keys_marker :: string where
  "core_keys_marker = ''__core_keys__''"

section \<open>Validator (translator.py, lines 83 to 148)\<close>

text \<open>
  The pattern is a \<open>str\<close> pattern: \<open>\d\<close> matches every decimal digit of Unicode (the
  characters for which \<open>str.isdecimal\<close> holds), not only the ASCII digits. Which
  characters beyond ASCII these are is laid down by the Unicode database of the Python
  interpreter, which the repository does not fix: the model takes that set of code points
  as the parameter \<open>unicode_decimal\<close>. Below 128 the decimal digits are the ten ASCII
  digits in every version.
\<close>

definition is_decimal :: "(nat \<Rightarrow> bool) \<Rightarrow> nat \<Rightarrow> bool" where
  "is_decimal unicode_decimal cp =
     (if cp < 128 then 48 \<le> cp \<and> cp \<le> 57 else unicode_decimal cp)"

text \<open>
  A text is held as its UTF-8 bytes: the first byte of a character gives the number of
  its bytes, and the bytes give its code point.
\<close>

definition utf8_width :: "char \<Rightarrow> nat" where
  "utf8_width c =
     (if of_char c < (0x80 :: nat) then 1
      else if of_char c < (0xE0 :: nat) then 2
      else if of_char c < (0xF0 :: nat) then 3
      else 4)"

definition utf8_code_point :: "string \<Rightarrow> nat" where
  "utf8_code_point bs =
     (case map of_char bs of
        [] \<Rightarrow> 0
      | a # rest \<Rightarrow>
          foldl (\<lambda>v b. v * 64 + b mod 64)
            (if rest = [] then a else a mod 2 ^ (6 - length rest)) rest)"

text \<open>The bytes \<open>ch\<close> are one whole character, and it is a decimal digit.\<close>

definition is_decimal_char :: "(nat \<Rightarrow> bool) \<Rightarrow> string \<Rightarrow> bool" where
  "is_decimal_char unicode_decimal ch =
     (ch \<noteq> [] \<and> length ch = utf8_width (hd ch)
      \<and> is_decimal unicode_decimal (utf8_code_point ch))"

text \<open>\<open>\d+\<close>, greedy: the longest run of decimal digits at the head of the text.\<close>

fun match_digits :: "(nat \<Rightarrow> bool) \<Rightarrow> string \<Rightarrow> string" where
  "match_digits unicode_decimal [] = []"
| "match_digits unicode_decimal (c # cs) =
     (if is_decimal_char unicode_decimal (c # take (utf8_width c - 1) cs)
      then (c # take (utf8_width c - 1) cs)
             @ match_digits unicode_decimal (drop (utf8_width c - 1) cs)
      else [])"

text \<open>
  \<open>re.findall(r'%(?:\d+\$)?s', text)\<close>: the scan tries a match at every position from
  left to right and resumes after a match. At a percent sign the optional group takes
  the longest run of digits when a dollar sign and \<open>s\<close> follow it (a shorter run is
  followed by a digit, never by the dollar sign); otherwise only a directly following
  \<open>s\<close> matches. A percent sign is one byte and never part of another character.
\<close>

fun match_placeholder :: "(nat \<Rightarrow> bool) \<Rightarrow> string \<Rightarrow> string option" where
  "match_placeholder unicode_decimal [] = None"
| "match_placeholder unicode_decimal (c # cs) =
     (if c = CHR ''%'' then
        (let ds = match_digits unicode_decimal cs; r = drop (length ds) cs
         in if ds \<noteq> [] \<and> take 2 r = ''$s'' then Some (c # ds @ ''$s'')
            else if take 1 cs = ''s'' then Some ''%s''
            else None)
      else None)"

fun findall_placeholders :: "(nat \<Rightarrow> bool) \<Rightarrow> string \<Rightarrow> string list" where
  "findall_placeholders unicode_decimal [] = []"
| "findall_placeholders unicode_decimal (c # cs) =
     (case match_placeholder unicode_decimal (c # cs) of
        Some tok \<Rightarrow> tok # findall_placeholders unicode_decimal (drop (length tok - 1) cs)
      | None \<Rightarrow> findall_placeholders unicode_decimal cs)"

text \<open>
  The words of the specification for the numbered token, \<open>N\<close> between the percent sign
  and \<open>$s\<close>: the text \<open>ds\<close> is one or more decimal digits and nothing else.
\<close>

fun decimal_digits :: "(nat \<Rightarrow> bool) \<Rightarrow> string \<Rightarrow> bool" where
  "decimal_digits unicode_decimal [] = False"
| "decimal_digits unicode_decimal (c # cs) =
     (is_decimal_char unicode_decimal (c # take (utf8_width c - 1) cs)
      \<and> (drop (utf8_width c - 1) cs = []
           \<or> decimal_digits unicode_decimal (drop (utf8_width c - 1) cs)))"

definition validate_placeholder_consistency ::
  "(nat \<Rightarrow> bool) \<Rightarrow> string \<Rightarrow> string \<Rightarrow> bool" where
  "validate_placeholder_consistency unicode_decimal original_text translated_text =
     (sort (findall_placeholders unicode_decimal original_text)
        = sort (findall_placeholders unicode_decimal translated_text))"

text \<open>
  The error list of \<open>validate_translation_result\<close>; each constructor is one of the four
  messages the source appends (missing keys, extra keys, a value that is not a string, a
  placeholder mismatch with the key, the reference text and the translated text).
\<close>

datatype verror =
    MissingKeys "string list"
  | ExtraKeys "string list"
  | NotString string
  | PlaceholderMismatch string string string

text \<open>
  Lines 132 to 142: the text whose placeholders the translation is compared with: the
  first element of a list (the empty text for an empty list), and \<open>str(v)\<close> otherwise.
\<close>

fun reference_value :: "pyval \<Rightarrow> string" where
  "reference_value (StrList []) = ''''"
| "reference_value (StrList (x # xs)) = x"
| "reference_value (Str s) = s"
| "reference_value (Bool b) = (if b then ''True'' else ''False'')"

text \<open>Lines 124 to 146: the body of the loop over the shared keys.\<close>

definition check_key ::
  "(nat \<Rightarrow> bool) \<Rightarrow> pyval dict \<Rightarrow> string \<Rightarrow> pyval \<Rightarrow> verror list" where
  "check_key unicode_decimal translated key original_value =
     (case map_of translated key of
        Some (Str translated_value) \<Rightarrow>
          (if \<not> validate_placeholder_consistency unicode_decimal
                   (reference_value original_value) translated_value
           then [PlaceholderMismatch key (reference_value original_value) translated_value]
           else [])
      | _ \<Rightarrow> [NotString key])"

text \<open>
  The key sets are Python sets; the model lists the shared keys in the order of the
  original dictionary (the order only arranges the messages).
\<close>

definition validate_translation_result ::
  "(nat \<Rightarrow> bool) \<Rightarrow> pyval dict \<Rightarrow> pyval dict \<Rightarrow> verror list" where
  "validate_translation_result unicode_decimal original translated =
     (let original_keys = map fst original;
          translated_keys = map fst translated;
          missing_keys = filter (\<lambda>k. k \<notin> set translated_keys) original_keys;
          extra_keys = filter (\<lambda>k. k \<notin> set original_keys) translated_keys
      in (if set original_keys \<noteq> set translated_keys
          then (if missing_keys \<noteq> [] then [MissingKeys missing_keys] else [])
             @ (if extra_keys \<noteq> [] then [ExtraKeys extra_keys] else [])
          else [])
       @ concat (map (\<lambda>(key, original_value).
                     check_key unicode_decimal translated key original_value)
                  (filter (\<lambda>(key, original_value). key \<in> set translated_keys) original)))"

text \<open>The example of the specification: an English source text and two French translations.\<close>

definition deal_source :: string where
  "deal_source = ''Deal %1$s damage to %2$s''"

definition deal_french :: string where
  "deal_french = ''Infligez %1$s d'' @ [CHR 0xC3, CHR 0xA9] @ ''g'' @ [CHR 0xC3, CHR 0xA2]
     @ ''ts '' @ [CHR 0xC3, CHR 0xA0] @ '' %2$s''"

definition deal_french_incomplete :: string where
  "deal_french_incomplete = ''Infligez des d'' @ [CHR 0xC3, CHR 0xA9] @ ''g''
     @ [CHR 0xC3, CHR 0xA2] @ ''ts '' @ [CHR 0xC3, CHR 0xA0] @ '' %2$s''"

text \<open>
  A text with a digit that is not ASCII: the fullwidth digit one (U+FF11, the bytes
  \<open>EF BC 91\<close>) between the percent sign and \<open>$s\<close>.
\<close>

definition fullwidth_one :: string where
  "fullwidth_one = [CHR 0xEF, CHR 0xBC, CHR 0x91]"

section \<open>One translation attempt (translator.py, lines 267 to 421)\<close>

text \<open>
  Constants of config.py. Temperatures are decimal constants that are only passed on and
  compared, never computed with; they are modelled as the reals they denote.
\<close>

definition MAX_INDIVIDUAL_RETRIES :: nat where
  "MAX_INDIVIDUAL_RETRIES = 10"

definition DEFAULT_TEMPERATURE :: real where
  "DEFAULT_TEMPERATURE = 13 / 10"

definition TEMPERATURE_ADJUSTMENTS :: "real list" where
  "TEMPERATURE_ADJUSTMENTS = [13 / 10, 13 / 10, 12 / 10, 1, 7 / 10]"

text \<open>
  The two texts the source puts at the head of its \<open>ValueError\<close> messages, as UTF-8:
  the six characters of line 400 (translation validation failed), which line 574 looks
  for, and \<open>JSON\<close> followed by four characters, a colon and a space (line 395).
\<close>

definition validation_failure_text :: string where
  "validation_failure_text =
     [CHR 0xE7, CHR 0xBF, CHR 0xBB, CHR 0xE8, CHR 0xAF, CHR 0x91, CHR 0xE9, CHR 0xAA, CHR 0x8C,
      CHR 0xE8, CHR 0xAF, CHR 0x81, CHR 0xE5, CHR 0xA4, CHR 0xB1, CHR 0xE8, CHR 0xB4, CHR 0xA5]"

definition json_failure_prefix :: string where
  "json_failure_prefix =
     ''JSON'' @ [CHR 0xE8, CHR 0xA7, CHR 0xA3, CHR 0xE6, CHR 0x9E, CHR 0x90,
                 CHR 0xE5, CHR 0xA4, CHR 0xB1, CHR 0xE8, CHR 0xB4, CHR 0xA5] @ '': ''"

text \<open>\<open>s.startswith(p)\<close> and the substring test \<open>p in s\<close>.\<close>

primrec starts_with :: "string \<Rightarrow> string \<Rightarrow> bool" where
  "starts_with [] p = (p = [])"
| "starts_with (c # cs) p = (case p of [] \<Rightarrow> True | d # ds \<Rightarrow> c = d \<and> starts_with cs ds)"

primrec py_in :: "string \<Rightarrow> string \<Rightarrow> bool" where
  "py_in p [] = (p = [])"
| "py_in p (c # cs) = (starts_with (c # cs) p \<or> py_in p cs)"

text \<open>
  What the service and the JSON library do in one call is the environment of the model.
  A reply is one of: an exception before the reply text is in hand (the request, the
  status check, the empty-body checks, the envelope; lines 348 to 379), with its message;
  a reply text that \<open>json.loads\<close> rejects after the code fences are stripped, with the
  decoder's message; a reply text that is JSON but not an object, on which \<open>.keys()\<close>
  raises \<open>AttributeError\<close>; or a JSON object.
\<close>

datatype json_kind = JsonList | JsonString | JsonInt | JsonFloat | JsonBool | JsonNull

fun type_name :: "json_kind \<Rightarrow> string" where
  "type_name JsonList = ''list''"
| "type_name JsonString = ''str''"
| "type_name JsonInt = ''int''"
| "type_name JsonFloat = ''float''"
| "type_name JsonBool = ''bool''"
| "type_name JsonNull = ''NoneType''"

datatype service_reply =
    RequestFailed string
  | ContentNotJson string
  | ContentNotObject json_kind
  | ContentObject "pyval dict"

text \<open>
  An exception that leaves \<open>translate_batch\<close>. The caller only reads \<open>str(e)\<close>. The
  \<open>ValueError\<close> of line 400 is kept with its error list: its message is
  \<open>validation_failure_text\<close>, a colon and the joined messages.
\<close>

datatype raised = Raised string | ValidationFailed "verror list"

definition translate_batch ::
  "(nat \<Rightarrow> bool) \<Rightarrow> service_reply \<Rightarrow> pyval dict \<Rightarrow> raised + pyval dict" where
  "translate_batch unicode_decimal reply texts =
     (if texts = [] then Inr []
      else
        let texts_to_translate = filter (\<lambda>(k, v). k \<noteq> core_keys_marker) texts
        in if texts_to_translate = [] then Inr []
           else
             (case reply of
                RequestFailed msg \<Rightarrow> Inl (Raised msg)
              | ContentNotJson msg \<Rightarrow> Inl (Raised (json_failure_prefix @ msg))
              | ContentNotObject kind \<Rightarrow>
                  Inl (Raised ([CHR 0x27] @ type_name kind @ [CHR 0x27]
                               @ '' object has no attribute '' @ [CHR 0x27] @ ''keys'' @ [CHR 0x27]))
              | ContentObject translated_dict \<Rightarrow>
                  (let validation_errors =
                         validate_translation_result unicode_decimal
                           texts_to_translate translated_dict
                   in if validation_errors \<noteq> [] then Inl (ValidationFailed validation_errors)
                      else Inr translated_dict)))"

section \<open>The retry state machine (translator.py, lines 502 to 599)\<close>

text \<open>
  Line 574: the test for the validation text in \<open>str(e)\<close>.
\<close>

definition is_validation_failure :: "raised \<Rightarrow> bool" where
  "is_validation_failure e =
     (case e of
        ValidationFailed errs \<Rightarrow> True
      | Raised error_str \<Rightarrow> py_in validation_failure_text error_str)"

text \<open>
  Lines 519 to 528. The flag is \<open>self.non_thinking_mode\<close> (the fast model variant when
  set). The function is only called with a positive count; at 0 Python's index \<open>-1\<close>
  would read the last entry.
\<close>

definition get_temperature_and_mode :: "bool \<Rightarrow> nat \<Rightarrow> real \<times> bool" where
  "get_temperature_and_mode non_thinking validation_attempt =
     (if validation_attempt \<le> 5
      then ((if validation_attempt = 0 then last TEMPERATURE_ADJUSTMENTS
             else TEMPERATURE_ADJUSTMENTS ! (validation_attempt - 1)), non_thinking)
      else (TEMPERATURE_ADJUSTMENTS ! ((validation_attempt - 6) mod 5), \<not> non_thinking))"

text \<open>
  The state of one execution: the two counters, the attempt number, the translator's
  \<open>non_thinking_mode\<close> attribute, and a record of every call of \<open>translate_batch\<close>
  (the counters before the call, the temperature and the model variant of the call),
  which the source does not keep and the theorems speak about.
\<close>

record attempt =
  attempt_number :: nat
  api_failures_before :: nat
  validation_failures_before :: nat
  attempt_temperature :: real
  attempt_non_thinking :: bool

record exec_state =
  api_failure_count :: nat
  validation_failure_count :: nat
  total_attempts :: nat
  non_thinking_mode :: bool
  attempts :: "attempt list"

text \<open>
  The service answers a call by its attempt number, temperature and model variant.
\<close>

type_synonym service = "nat \<Rightarrow> real \<Rightarrow> bool \<Rightarrow> service_reply"

datatype step = Continue exec_state | Return "pyval dict" exec_state

text \<open>One pass through the body of the \<open>while\<close> loop (lines 533 to 599).\<close>

definition run_attempt ::
  "(nat \<Rightarrow> bool) \<Rightarrow> nat \<Rightarrow> service \<Rightarrow> pyval dict \<Rightarrow> exec_state \<Rightarrow> step" where
  "run_attempt unicode_decimal max_individual_retries service texts s =
     (let s0 = s\<lparr>total_attempts := total_attempts s + 1\<rparr>;
          original_mode = non_thinking_mode s0;
          (temperature, s1) =
             (if validation_failure_count s0 > 0
              then (let (t, thinking_mode) =
                          get_temperature_and_mode (non_thinking_mode s0) (validation_failure_count s0)
                    in (t, s0\<lparr>non_thinking_mode := thinking_mode\<rparr>))
              else (13 / 10, s0));
          s2 = s1\<lparr>attempts := attempts s1 @
                  [\<lparr>attempt_number = total_attempts s1,
                    api_failures_before = api_failure_count s1,
                    validation_failures_before = validation_failure_count s1,
                    attempt_temperature = temperature,
                    attempt_non_thinking = non_thinking_mode s1\<rparr>]\<rparr>
      in case translate_batch unicode_decimal
                (service (total_attempts s2) temperature (non_thinking_mode s2)) texts of
           Inr res \<Rightarrow>
             (let s3 = (if validation_failure_count s2 > 0
                        then s2\<lparr>non_thinking_mode := original_mode\<rparr> else s2)
              in if res = [] then
                   (let s4 = s3\<lparr>validation_failure_count := validation_failure_count s3 + 1\<rparr>
                    in if validation_failure_count s4 < max_individual_retries
                       then Continue s4
                       else Return [] s4)
                 else Return res s3)
         | Inl e \<Rightarrow>
             (let s3 = (if is_validation_failure e
                        then s2\<lparr>validation_failure_count := validation_failure_count s2 + 1\<rparr>
                        else s2\<lparr>api_failure_count := api_failure_count s2 + 1\<rparr>);
                  s4 = (if validation_failure_count s3 > 0
                        then s3\<lparr>non_thinking_mode := original_mode\<rparr> else s3)
              in if api_failure_count s4 < max_individual_retries
                    \<and> validation_failure_count s4 < max_individual_retries
                 then Continue s4
                 else Return [] s4))"

text \<open>
  The same pass in its three parts, for the schedules in which several executions run at
  once. Lines 534 to 545, up to the call: the attempt number is incremented, the
  temperature and \<open>original_mode\<close> are read and, after a validation failure,
  \<open>self.non_thinking_mode\<close> is written; the result is the temperature, \<open>original_mode\<close>
  and the state with which \<open>translate_batch\<close> is called (line 328 reads the attribute
  again during the call).
\<close>

definition begin_attempt :: "exec_state \<Rightarrow> real \<times> bool \<times> exec_state" where
  "begin_attempt s =
     (let s0 = s\<lparr>total_attempts := total_attempts s + 1\<rparr>;
          original_mode = non_thinking_mode s0;
          (temperature, s1) =
             (if validation_failure_count s0 > 0
              then (let (t, thinking_mode) =
                          get_temperature_and_mode (non_thinking_mode s0) (validation_failure_count s0)
                    in (t, s0\<lparr>non_thinking_mode := thinking_mode\<rparr>))
              else (13 / 10, s0));
          s2 = s1\<lparr>attempts := attempts s1 @
                  [\<lparr>attempt_number = total_attempts s1,
                    api_failures_before = api_failure_count s1,
                    validation_failures_before = validation_failure_count s1,
                    attempt_temperature = temperature,
                    attempt_non_thinking = non_thinking_mode s1\<rparr>]\<rparr>
      in (temperature, original_mode, s2))"

text \<open>Lines 550 to 599, after the call has returned or raised.\<close>

definition end_attempt :: "nat \<Rightarrow> bool \<Rightarrow> raised + pyval dict \<Rightarrow> exec_state \<Rightarrow> step" where
  "end_attempt max_individual_retries original_mode outcome s2 =
     (case outcome of
           Inr res \<Rightarrow>
             (let s3 = (if validation_failure_count s2 > 0
                        then s2\<lparr>non_thinking_mode := original_mode\<rparr> else s2)
              in if res = [] then
                   (let s4 = s3\<lparr>validation_failure_count := validation_failure_count s3 + 1\<rparr>
                    in if validation_failure_count s4 < max_individual_retries
                       then Continue s4
                       else Return [] s4)
                 else Return res s3)
         | Inl e \<Rightarrow>
             (let s3 = (if is_validation_failure e
                        then s2\<lparr>validation_failure_count := validation_failure_count s2 + 1\<rparr>
                        else s2\<lparr>api_failure_count := api_failure_count s2 + 1\<rparr>);
                  s4 = (if validation_failure_count s3 > 0
                        then s3\<lparr>non_thinking_mode := original_mode\<rparr> else s3)
              in if api_failure_count s4 < max_individual_retries
                    \<and> validation_failure_count s4 < max_individual_retries
                 then Continue s4
                 else Return [] s4))"

text \<open>
  \<open>execute_requests_concurrently\<close> submits \<open>self.execute_translation_request\<close> for every
  request to one thread pool (lines 616 to 620): the counters are local variables of each
  execution, and \<open>self.non_thinking_mode\<close> is one attribute of the one translator. An
  execution that goes on after a step of another one finds the attribute as the other
  left it.
\<close>

definition with_attribute_of :: "exec_state \<Rightarrow> exec_state \<Rightarrow> exec_state" where
  "with_attribute_of other s = s\<lparr>non_thinking_mode := non_thinking_mode other\<rparr>"

text \<open>
  The state at the top of the loop after \<open>n\<close> passes that all went on to another attempt
  (\<open>None\<close> when the loop has ended before).
\<close>

fun after_attempts ::
  "(nat \<Rightarrow> bool) \<Rightarrow> nat \<Rightarrow> nat \<Rightarrow> service \<Rightarrow> pyval dict \<Rightarrow> exec_state
     \<Rightarrow> exec_state option" where
  "after_attempts unicode_decimal 0 max_individual_retries service texts s = Some s"
| "after_attempts unicode_decimal (Suc n) max_individual_retries service texts s =
     (if api_failure_count s < max_individual_retries
         \<and> validation_failure_count s < max_individual_retries
      then (case run_attempt unicode_decimal max_individual_retries service texts s of
              Continue s' \<Rightarrow>
                after_attempts unicode_decimal n max_individual_retries service texts s'
            | Return res s' \<Rightarrow> None)
      else None)"

text \<open>
  The loop. When its condition fails at the top the Python function runs off its end
  and returns \<open>None\<close>: the value \<open>None\<close> here.
\<close>

function exec_loop ::
  "(nat \<Rightarrow> bool) \<Rightarrow> nat \<Rightarrow> service \<Rightarrow> pyval dict \<Rightarrow> exec_state
     \<Rightarrow> (pyval dict \<times> exec_state) option" where
  "exec_loop unicode_decimal max_individual_retries service texts s =
     (if api_failure_count s < max_individual_retries
         \<and> validation_failure_count s < max_individual_retries
      then (case run_attempt unicode_decimal max_individual_retries service texts s of
              Continue s' \<Rightarrow> exec_loop unicode_decimal max_individual_retries service texts s'
            | Return res s' \<Rightarrow> Some (res, s'))
      else None)"
  by pat_completeness auto
termination
  by (relation "measure (\<lambda>(unicode_decimal, r, service, texts, s).
        (r - api_failure_count s) + (r - validation_failure_count s))")
     (auto simp: run_attempt_def Let_def split: sum.splits if_splits prod.splits)

definition initial_state :: "bool \<Rightarrow> exec_state" where
  "initial_state non_thinking =
     \<lparr>api_failure_count = 0, validation_failure_count = 0, total_attempts = 0,
      non_thinking_mode = non_thinking, attempts = []\<rparr>"

text \<open>
  \<open>execute_translation_request\<close>, for a translator whose \<open>non_thinking_mode\<close> is the
  flag given and a request whose payload is \<open>texts\<close>. The Python function returns the
  request's id and language beside the result; the model returns the result and the final
  state.
\<close>

definition execute_translation_request ::
  "(nat \<Rightarrow> bool) \<Rightarrow> service \<Rightarrow> bool \<Rightarrow> pyval dict
     \<Rightarrow> (pyval dict \<times> exec_state) option" where
  "execute_translation_request unicode_decimal service non_thinking texts =
     exec_loop unicode_decimal MAX_INDIVIDUAL_RETRIES service texts (initial_state non_thinking)"

section \<open>Change detector (git_changes.py, lines 83 to 183)\<close>

datatype ChangeType = ADDED | DELETED | MODIFIED

record KeyChange =
  key :: string
  old_value :: "pyval option"
  new_value :: "pyval option"
  operation :: ChangeType

text \<open>The dictionary the function returns, with its three lists.\<close>

record key_changes =
  added :: "KeyChange list"
  deleted :: "KeyChange list"
  modified :: "KeyChange list"

text \<open>
  A snapshot of the file at one revision, as the function meets it: not there (the
  \<open>git show\<close> of the old revision fails, or the new file does not exist); bytes that
  cannot be decoded as text; text that is not JSON; a JSON object; or JSON that is not an
  object (with its Python truth value).
\<close>

datatype snapshot =
    Missing | Undecodable | Unparseable | Object "pyval dict" | NotObject bool

text \<open>
  Lines 87 to 96. Only \<open>json.JSONDecodeError\<close> is caught at line 95: for text that is not
  JSON the old data stay empty. Bytes that cannot be decoded make \<open>subprocess.run\<close>
  (called with \<open>text=True\<close>) raise \<open>UnicodeDecodeError\<close>, and a document that is not an
  object has no \<open>keys\<close> at line 105: in both cases the handler of line 181 returns
  \<open>None\<close>.
\<close>

fun old_data_of :: "snapshot \<Rightarrow> pyval dict option" where
  "old_data_of Missing = Some []"
| "old_data_of Undecodable = None"
| "old_data_of Unparseable = Some []"
| "old_data_of (Object d) = Some d"
| "old_data_of (NotObject truthy) = None"

text \<open>
  Lines 99 to 102 with \<open>load_json_file\<close> (file_ops.py, lines 15 to 25), which returns
  \<open>None\<close> for a missing file and for text that is not JSON; \<open>or {}\<close> replaces every
  false value. A file that is not UTF-8 makes \<open>json.load\<close> raise \<open>UnicodeDecodeError\<close>,
  which \<open>load_json_file\<close> does not catch, and a true value that is not an object has no
  \<open>keys\<close>: the handler of line 181 returns \<open>None\<close>.
\<close>

fun new_data_of :: "snapshot \<Rightarrow> pyval dict option" where
  "new_data_of Missing = Some []"
| "new_data_of Undecodable = None"
| "new_data_of Unparseable = Some []"
| "new_data_of (Object d) = Some d"
| "new_data_of (NotObject truthy) = (if truthy then None else Some [])"

text \<open>Lines 144 to 149: the index of the deleted values and their counts.\<close>

fun index_deleted ::
  "KeyChange list \<Rightarrow> (string \<rightharpoonup> KeyChange) \<times> (string \<rightharpoonup> nat)
     \<Rightarrow> (string \<rightharpoonup> KeyChange) \<times> (string \<rightharpoonup> nat)" where
  "index_deleted [] (deleted_index, deleted_value_counts) = (deleted_index, deleted_value_counts)"
| "index_deleted (d # ds) (deleted_index, deleted_value_counts) =
     (case old_value d of
        Some (Str v) \<Rightarrow>
          index_deleted ds
            (deleted_index(v \<mapsto> d),
             deleted_value_counts(v \<mapsto> (case deleted_value_counts v of None \<Rightarrow> 0 | Some n \<Rightarrow> n) + 1))
      | _ \<Rightarrow> index_deleted ds (deleted_index, deleted_value_counts))"

text \<open>
  Lines 154 to 168: the loop over the added keys, on the triple of \<open>modified_keys\<close>,
  \<open>used_deleted\<close> and \<open>added_remaining\<close>.
\<close>

fun rename_loop ::
  "(string \<rightharpoonup> KeyChange) \<Rightarrow> (string \<rightharpoonup> nat) \<Rightarrow> KeyChange list
     \<Rightarrow> KeyChange list \<times> string list \<times> KeyChange list
     \<Rightarrow> KeyChange list \<times> string list \<times> KeyChange list" where
  "rename_loop deleted_index deleted_value_counts [] st = st"
| "rename_loop deleted_index deleted_value_counts (a # as) (modified_keys, used_deleted, added_remaining) =
     (case new_value a of
        Some (Str v) \<Rightarrow>
          (case deleted_index v of
             Some d \<Rightarrow>
               (if (case deleted_value_counts v of None \<Rightarrow> 0 | Some n \<Rightarrow> n) = 1
                   \<and> key d \<notin> set used_deleted
                then rename_loop deleted_index deleted_value_counts as
                       (modified_keys @
                          [\<lparr>key = key a, old_value = old_value d, new_value = new_value a,
                            operation = MODIFIED\<rparr>],
                        used_deleted @ [key d], added_remaining)
                else rename_loop deleted_index deleted_value_counts as
                       (modified_keys, used_deleted, added_remaining @ [a]))
           | None \<Rightarrow> rename_loop deleted_index deleted_value_counts as
                       (modified_keys, used_deleted, added_remaining @ [a]))
      | _ \<Rightarrow> rename_loop deleted_index deleted_value_counts as
                (modified_keys, used_deleted, added_remaining @ [a]))"

text \<open>
  Lines 104 to 179. The key sets are Python sets, whose iteration order the language
  does not fix: \<open>set_order\<close> gives the order in which a set built from the listed keys
  is iterated, and the theorems hold for every such order.
\<close>

definition compare_snapshots ::
  "(string list \<Rightarrow> string list) \<Rightarrow> pyval dict \<Rightarrow> pyval dict \<Rightarrow> key_changes" where
  "compare_snapshots set_order old_data new_data =
     (let old_keys = map fst old_data;
          new_keys = map fst new_data;
          added_keys =
            map (\<lambda>k. \<lparr>key = k, old_value = None, new_value = map_of new_data k, operation = ADDED\<rparr>)
              (set_order (filter (\<lambda>k. k \<notin> set old_keys) new_keys));
          deleted_keys =
            map (\<lambda>k. \<lparr>key = k, old_value = map_of old_data k, new_value = None, operation = DELETED\<rparr>)
              (set_order (filter (\<lambda>k. k \<notin> set new_keys) old_keys));
          modified_keys =
            map (\<lambda>k. \<lparr>key = k, old_value = map_of old_data k, new_value = map_of new_data k,
                      operation = MODIFIED\<rparr>)
              (filter (\<lambda>k. map_of old_data k \<noteq> map_of new_data k)
                 (set_order (filter (\<lambda>k. k \<in> set new_keys) old_keys)))
      in if added_keys \<noteq> [] \<and> deleted_keys \<noteq> [] then
           (let (deleted_index, deleted_value_counts) =
                  index_deleted deleted_keys (Map.empty, Map.empty);
                (modified_keys', used_deleted, added_remaining) =
                  rename_loop deleted_index deleted_value_counts added_keys (modified_keys, [], []);
                deleted_remaining = filter (\<lambda>d. key d \<notin> set used_deleted) deleted_keys
            in \<lparr>added = added_remaining, deleted = deleted_remaining, modified = modified_keys'\<rparr>)
         else \<lparr>added = added_keys, deleted = deleted_keys, modified = modified_keys\<rparr>)"

definition get_file_key_changes ::
  "(string list \<Rightarrow> string list) \<Rightarrow> snapshot \<Rightarrow> snapshot \<Rightarrow> key_changes option" where
  "get_file_key_changes set_order old_snapshot new_snapshot =
     (case old_data_of old_snapshot of
        None \<Rightarrow> None
      | Some old_data \<Rightarrow>
          (case new_data_of new_snapshot of
             None \<Rightarrow> None
           | Some new_data \<Rightarrow> Some (compare_snapshots set_order old_data new_data)))"

section \<open>Context window builder (file_ops.py, lines 200 to 263)\<close>

text \<open>\<open>xs.index(x)\<close>; \<open>None\<close> is the \<open>ValueError\<close> of a missing element.\<close>

primrec index_of :: "'a list \<Rightarrow> 'a \<Rightarrow> nat option" where
  "index_of [] x = None"
| "index_of (y # ys) x = (if y = x then Some 0 else map_option Suc (index_of ys x))"

text \<open>Lines 239 to 247: the neighbours appended for one target key.\<close>

definition context_of_key :: "string list \<Rightarrow> int \<Rightarrow> string \<Rightarrow> string list" where
  "context_of_key source_keys max_context k =
     (case index_of source_keys k of
        None \<Rightarrow> []
      | Some idx \<Rightarrow>
          (let start = max 0 (int idx - max_context div 2);
               end_index = min (int (length source_keys)) (int idx + max_context div 2 + 1)
           in map (\<lambda>i. source_keys ! i) [nat start ..< idx]
            @ map (\<lambda>i. source_keys ! i) [idx + 1 ..< nat end_index]))"

text \<open>
  The whole function. \<open>dict(source_dict)\<close> copies the dictionary; \<open>list(target_set)\<close>
  is only tested for membership, so its order does not matter.
\<close>

definition get_context_for_keys :: "pyval dict \<Rightarrow> string list \<Rightarrow> int \<Rightarrow> bool \<Rightarrow> pyval dict" where
  "get_context_for_keys source_dict target_keys max_context force_context =
     (let source_keys = map fst source_dict;
          all_keys_count = int (length source_keys)
      in if force_context then AList.update core_keys_marker (StrList target_keys) source_dict
         else if all_keys_count \<le> max_context
         then AList.update core_keys_marker (StrList target_keys) source_dict
         else
           (let result_keys =
                  remdups target_keys
                  @ concat (map (context_of_key source_keys max_context) target_keys);
                unique_keys =
                  foldl (\<lambda>acc k. if k \<in> set result_keys \<and> k \<notin> set acc then acc @ [k] else acc)
                    [] source_keys;
                result =
                  foldl (\<lambda>r k. case map_of source_dict k of
                                   Some v \<Rightarrow> AList.update k v r
                                 | None \<Rightarrow> r)
                    [] unique_keys
            in AList.update core_keys_marker (StrList target_keys) result))"

section \<open>Batch scheduler (translator.py, lines 691 to 767)\<close>

text \<open>
  Python's slice \<open>xs[a:b]\<close>: a negative bound counts from the end, and both bounds are
  clipped to the list.
\<close>

definition py_bound :: "nat \<Rightarrow> int \<Rightarrow> nat" where
  "py_bound n i = (if i < 0 then nat (max 0 (int n + i)) else min n (nat i))"

definition py_slice :: "'a list \<Rightarrow> int \<Rightarrow> int \<Rightarrow> 'a list" where
  "py_slice xs a b =
     take (py_bound (length xs) b - py_bound (length xs) a) (drop (py_bound (length xs) a) xs)"

text \<open>
  The Python exceptions that leave a modelled function. \<open>range(0, stop, step)\<close>
  raises \<open>ValueError\<close> for a step of 0.
\<close>

datatype py_error = ValueError | TypeError | UnicodeDecodeError | AttributeError

definition py_range_by :: "int \<Rightarrow> int \<Rightarrow> py_error + int list" where
  "py_range_by stop step =
     (if step = 0 then Inl ValueError
      else if step < 0 \<or> stop \<le> 0 then Inr []
      else Inr (map (\<lambda>j. int j * step) [0 ..< nat ((stop + step - 1) div step)]))"

text \<open>Lines 716 to 764: the batch built for the chunk that starts at \<open>i\<close>.\<close>

definition make_batch :: "pyval dict \<Rightarrow> int \<Rightarrow> int \<Rightarrow> int \<Rightarrow> pyval dict" where
  "make_batch items batch_size context_size i =
     (let total_items = int (length items);
          batch_start = i;
          batch_end = min (i + batch_size) total_items;
          core_items = py_slice items batch_start batch_end;
          context_items =
            (if i = 0 then
               (let context_start = batch_end;
                    context_end = min (batch_end + context_size) total_items
                in if context_start < total_items then py_slice items context_start context_end
                   else [])
             else if batch_end \<ge> total_items then
               (let context_start = max 0 (batch_start - context_size);
                    context_end = batch_start
                in py_slice items context_start context_end)
             else
               (let half_context = context_size div 2;
                    pre_context_start = max 0 (batch_start - half_context);
                    pre_context_end = batch_start;
                    pre_context = py_slice items pre_context_start pre_context_end;
                    post_context_start = batch_end;
                    post_context_end = min (batch_end + half_context) total_items;
                    post_context = py_slice items post_context_start post_context_end
                in pre_context @ post_context));
          batch_items = core_items @ context_items;
          batch_dict = py_dict batch_items;
          core_keys = remdups (map fst core_items)
      in AList.update core_keys_marker (StrList core_keys) batch_dict)"

definition split_texts_with_context_guarantee ::
  "pyval dict \<Rightarrow> int \<Rightarrow> int \<Rightarrow> py_error + pyval dict list" where
  "split_texts_with_context_guarantee texts batch_size context_size =
     (if texts = [] then Inr []
      else
        (let items = texts; total_items = int (length items)
         in if total_items \<le> batch_size then Inr [py_dict items]
            else (case py_range_by total_items batch_size of
                    Inl e \<Rightarrow> Inl e
                  | Inr starts \<Rightarrow> Inr (map (make_batch items batch_size context_size) starts))))"

section \<open>Cleanup (translation_flow.py, lines 222 to 276)\<close>

text \<open>
  The working directory holds one file per namespace and language. What
  \<open>load_namespace_translations_from_translate\<close> (file_ops.py, lines 75 to 85) makes of a
  file: the empty dictionary when the file is missing, is text that is not JSON, or holds
  a false JSON value (\<open>load_json_file(...) or {}\<close>); \<open>UnicodeDecodeError\<close> when its bytes
  are not UTF-8 (\<open>load_json_file\<close> catches only a missing file and
  \<open>json.JSONDecodeError\<close>); the object it holds; and any other true JSON value as it is:
  an array of strings (a string behaves as the array of its characters), or a number or
  \<open>true\<close>.
\<close>

datatype store_file =
    NoFile
  | UndecodableFile
  | ObjectFile "pyval dict"
  | ArrayFile "string list"
  | ScalarFile

type_synonym store = "string \<times> string \<Rightarrow> store_file"

text \<open>
  \<open>save_namespace_translations\<close> (file_ops.py, lines 88 to 94) with \<open>save_json_file\<close>
  (lines 28 to 37): the file is replaced when it can be written; when it cannot, the
  exception is caught and logged and the file stays as it is.
\<close>

definition save_namespace_translations ::
  "(string \<times> string \<Rightarrow> bool) \<Rightarrow> store \<Rightarrow> string \<Rightarrow> string \<Rightarrow> pyval dict \<Rightarrow> store" where
  "save_namespace_translations writable st ns lang_code translations =
     (if writable (ns, lang_code) then st((ns, lang_code) := ObjectFile translations) else st)"

text \<open>
  Lines 245 to 274: the body of the loop over the languages. Only the save stands in a
  \<open>try\<close> (lines 264 to 272). On a number or \<open>true\<close>, \<open>len\<close> at line 251 raises
  \<open>TypeError\<close>; on an array the loop of line 255 runs over the elements, and \<open>del\<close> at
  line 261 raises \<open>TypeError\<close> for an element that is not a key of the source.
\<close>

definition cleanup_language ::
  "(string \<times> string \<Rightarrow> bool) \<Rightarrow> pyval dict \<Rightarrow> string \<Rightarrow> store \<Rightarrow> string
     \<Rightarrow> py_error + store" where
  "cleanup_language writable source_dict ns st lang_code =
     (case st (ns, lang_code) of
        NoFile \<Rightarrow> Inr st
      | UndecodableFile \<Rightarrow> Inl UnicodeDecodeError
      | ScalarFile \<Rightarrow> Inl TypeError
      | ArrayFile existing_translations \<Rightarrow>
          (if existing_translations = [] then Inr st
           else
             (let source_keys = set (map fst source_dict);
                  keys_to_remove = filter (\<lambda>k. k \<notin> source_keys) existing_translations
              in if keys_to_remove \<noteq> [] then Inl TypeError else Inr st))
      | ObjectFile existing_translations \<Rightarrow>
          (if existing_translations = [] then Inr st
           else
             (let source_keys = set (map fst source_dict);
                  keys_to_remove = filter (\<lambda>k. k \<notin> source_keys) (map fst existing_translations)
              in if keys_to_remove \<noteq> [] then
                   Inr (save_namespace_translations writable st ns lang_code
                          (foldl (\<lambda>d k. AList.delete k d) existing_translations keys_to_remove))
                 else Inr st)))"

text \<open>
  The loop over the catalogue of target languages for one namespace. An exception leaves
  the whole pass; the model keeps the store as it is at that moment beside the exception.
\<close>

fun cleanup_languages ::
  "(string \<times> string \<Rightarrow> bool) \<Rightarrow> pyval dict \<Rightarrow> string \<Rightarrow> store \<Rightarrow> string list
     \<Rightarrow> (py_error \<times> store) + store" where
  "cleanup_languages writable source_dict ns st [] = Inr st"
| "cleanup_languages writable source_dict ns st (lang_code # rest) =
     (case cleanup_language writable source_dict ns st lang_code of
        Inl e \<Rightarrow> Inl (e, st)
      | Inr st' \<Rightarrow> cleanup_languages writable source_dict ns st' rest)"

text \<open>
  The loop over the namespaces (of \<open>get_namespace_list\<close>), lines 234 to 274, with the
  catalogue of target languages (code and name). \<open>reference\<close> gives what
  \<open>get_merged_reference_translations\<close> (file_ops.py, lines 146 to 185) returns for a
  namespace: the merged reference, or the exception that it lets through (it catches only
  \<open>json.JSONDecodeError\<close> and \<open>IOError\<close>). A namespace with an empty reference is
  skipped (lines 236 to 239).
\<close>

fun cleanup_namespaces ::
  "(string \<times> string \<Rightarrow> bool) \<Rightarrow> string list \<Rightarrow> (string \<Rightarrow> py_error + pyval dict)
     \<Rightarrow> store \<Rightarrow> string list \<Rightarrow> (py_error \<times> store) + store" where
  "cleanup_namespaces writable langs reference st [] = Inr st"
| "cleanup_namespaces writable langs reference st (ns # rest) =
     (case reference ns of
        Inl e \<Rightarrow> Inl (e, st)
      | Inr source_dict \<Rightarrow>
          (if source_dict = [] then cleanup_namespaces writable langs reference st rest
           else (case cleanup_languages writable source_dict ns st langs of
                   Inl failed \<Rightarrow> Inl failed
                 | Inr st' \<Rightarrow> cleanup_namespaces writable langs reference st' rest)))"

definition perform_cleanup_extra_keys ::
  "(string \<times> string \<Rightarrow> bool) \<Rightarrow> string list \<Rightarrow> (string \<times> string) list
     \<Rightarrow> (string \<Rightarrow> py_error + pyval dict) \<Rightarrow> store \<Rightarrow> (py_error \<times> store) + store" where
  "perform_cleanup_extra_keys writable all_namespaces languages reference st =
     cleanup_namespaces writable (map fst languages) reference st all_namespaces"



section \<open>Collecting the results (translator.py, lines 601 to 664)\<close>

record TranslationRequest =
  request_id :: nat
  texts :: "pyval dict"
  target_lang :: string
  target_lang_name :: string
  namespace :: string
  batch_id :: nat
  total_batches :: nat
  batch_size :: nat

text \<open>Lines 641 to 648: one result is merged into the two-level dictionary.\<close>

definition merge_result ::
  "(string \<rightharpoonup> (string \<rightharpoonup> pyval dict)) \<Rightarrow> TranslationRequest \<Rightarrow> pyval dict
     \<Rightarrow> (string \<rightharpoonup> (string \<rightharpoonup> pyval dict))" where
  "merge_result results request res =
     (let by_language = (case results (namespace request) of None \<Rightarrow> Map.empty | Some m \<Rightarrow> m);
          current = (case by_language (target_lang request) of None \<Rightarrow> [] | Some d \<Rightarrow> d)
      in results(namespace request \<mapsto> by_language(target_lang request \<mapsto> py_update current res)))"

text \<open>
  The results are merged by the collecting thread, one at a time, in the order in which
  the requests complete: \<open>completed\<close> lists the requests in that order. Each request has
  a service of its own, found by its id. An execution that returns no tuple makes the
  unpacking of line 638 raise; the handler logs it and the loop goes on.
\<close>

definition execute_requests_concurrently ::
  "(nat \<Rightarrow> bool) \<Rightarrow> (nat \<Rightarrow> service) \<Rightarrow> bool \<Rightarrow> TranslationRequest list
     \<Rightarrow> (string \<rightharpoonup> (string \<rightharpoonup> pyval dict))" where
  "execute_requests_concurrently unicode_decimal services non_thinking completed =
     foldl (\<lambda>results request.
              (case execute_translation_request unicode_decimal
                      (services (request_id request)) non_thinking
                      (texts request) of
                 Some (res, s) \<Rightarrow> merge_result results request res
               | None \<Rightarrow> results))
       Map.empty completed"

section \<open>Properties of the validator\<close>

lemma sort_eq_iff_mset:
  "sort xs = sort ys \<longleftrightarrow> mset xs = mset (ys :: string list)"
  by (metis mset_sort properties_for_sort sorted_sort)

lemma validate_placeholder_consistency_mset:
  "validate_placeholder_consistency dg a b
     \<longleftrightarrow> mset (findall_placeholders dg a) = mset (findall_placeholders dg b)"
  by (simp add: validate_placeholder_consistency_def sort_eq_iff_mset)

lemma check_key_Str:
  "map_of translated k = Some (Str tv) \<Longrightarrow>
   check_key dg translated k ov =
     (if mset (findall_placeholders dg (reference_value ov)) = mset (findall_placeholders dg tv)
      then [] else [PlaceholderMismatch k (reference_value ov) tv])"
  by (simp add: check_key_def validate_placeholder_consistency_mset)

lemma check_key_names_key:
  "e \<in> set (check_key dg translated k v) \<Longrightarrow>
   e = NotString k \<or> (\<exists>r t. e = PlaceholderMismatch k r t)"
  by (auto simp: check_key_def split: option.splits pyval.splits if_splits)

lemma key_error_mem:
  assumes "e = NotString k \<or> (\<exists>r t. e = PlaceholderMismatch k r t)"
  shows "e \<in> set (validate_translation_result dg original translated) \<longleftrightarrow>
     (\<exists>ov. (k, ov) \<in> set original \<and> k \<in> fst ` set translated
           \<and> e \<in> set (check_key dg translated k ov))"
proof -
  have "e \<in> set (validate_translation_result dg original translated) \<longleftrightarrow>
     e \<in> set (concat (map (\<lambda>(k', original_value). check_key dg translated k' original_value)
                  (filter (\<lambda>(k', original_value). k' \<in> set (map fst translated)) original)))"
    using assms by (auto simp: validate_translation_result_def Let_def)
  also have "\<dots> \<longleftrightarrow> (\<exists>k' ov. (k', ov) \<in> set original \<and> k' \<in> fst ` set translated
                           \<and> e \<in> set (check_key dg translated k' ov))"
    by auto
  also have "\<dots> \<longleftrightarrow> (\<exists>ov. (k, ov) \<in> set original \<and> k \<in> fst ` set translated
                           \<and> e \<in> set (check_key dg translated k ov))"
    using assms check_key_names_key by blast
  finally show ?thesis .
qed

lemma match_digits_take:
  "take (length (match_digits dg cs)) cs = match_digits dg cs"
proof (induction dg cs rule: match_digits.induct)
  case (1 dg)
  then show ?case by simp
next
  case (2 dg c cs)
  let ?n = "utf8_width c - 1"
  show ?case
  proof (cases "is_decimal_char dg (c # take ?n cs)")
    case True
    then have len: "?n \<le> length cs"
      by (auto simp: is_decimal_char_def)
    have "take (?n + length (match_digits dg (drop ?n cs))) cs
            = take ?n cs @ take (length (match_digits dg (drop ?n cs))) (drop ?n cs)"
      by (rule take_add)
    with "2.IH" [OF True] True len show ?thesis by simp
  next
    case False
    then show ?thesis by simp
  qed
qed

lemma match_digits_decimal:
  "match_digits dg cs \<noteq> [] \<Longrightarrow> decimal_digits dg (match_digits dg cs)"
proof (induction dg cs rule: match_digits.induct)
  case (1 dg)
  then show ?case by simp
next
  case (2 dg c cs)
  let ?n = "utf8_width c - 1"
  show ?case
  proof (cases "is_decimal_char dg (c # take ?n cs)")
    case True
    then have len: "length (take ?n cs) = ?n"
      by (auto simp: is_decimal_char_def)
    have "match_digits dg (drop ?n cs) = []
        \<or> decimal_digits dg (match_digits dg (drop ?n cs))"
      using "2.IH" [OF True] by blast
    then have "decimal_digits dg (c # (take ?n cs @ match_digits dg (drop ?n cs)))"
      using True len by (simp del: take_eq_Nil length_take)
    with True show ?thesis by simp
  next
    case False
    with "2.prems" show ?thesis by simp
  qed
qed

lemma decimal_digits_not_empty: "decimal_digits dg ds \<Longrightarrow> ds \<noteq> []"
  by auto

lemma match_digits_char:
  assumes "is_decimal_char dg ch"
  shows "match_digits dg (ch @ cs) = ch @ match_digits dg cs"
proof -
  from assms obtain c t where ch: "ch = c # t" "length t = utf8_width c - 1"
    by (cases ch) (auto simp: is_decimal_char_def)
  have "take (utf8_width c - 1) (t @ cs) = t" "drop (utf8_width c - 1) (t @ cs) = cs"
    using ch(2) by simp_all
  then show ?thesis
    using assms ch by simp
qed

lemma match_digits_of_decimal:
  "decimal_digits dg ds \<Longrightarrow> match_digits dg cs = [] \<Longrightarrow> match_digits dg (ds @ cs) = ds"
proof (induction dg ds rule: decimal_digits.induct)
  case (1 dg)
  then show ?case by simp
next
  case (2 dg c ds)
  let ?n = "utf8_width c - 1"
  from "2.prems"(1) have ch: "is_decimal_char dg (c # take ?n ds)"
    and rest: "drop ?n ds = [] \<or> decimal_digits dg (drop ?n ds)"
    by simp_all
  have "match_digits dg (drop ?n ds @ cs) = drop ?n ds"
  proof (cases "drop ?n ds = []")
    case True
    with "2.prems"(2) show ?thesis by simp
  next
    case False
    with rest have "decimal_digits dg (drop ?n ds)" by blast
    with "2.IH" "2.prems"(2) show ?thesis by blast
  qed
  then have "(c # take ?n ds) @ match_digits dg (drop ?n ds @ cs) = (c # take ?n ds) @ drop ?n ds"
    by (simp only:)
  with match_digits_char [OF ch, of "drop ?n ds @ cs"]
  have fin: "match_digits dg ((c # take ?n ds) @ (drop ?n ds @ cs)) = (c # take ?n ds) @ drop ?n ds"
    by (simp only:)
  have e1: "(c # ds) @ cs = (c # take ?n ds) @ (drop ?n ds @ cs)"
    by simp
  have e2: "(c # take ?n ds) @ drop ?n ds = c # ds"
    by simp
  show ?case unfolding e1 using fin e2 by (simp only:)
qed

lemma match_digits_dollar: "match_digits dg (CHR ''$'' # cs) = []"
  by (simp add: is_decimal_char_def utf8_width_def utf8_code_point_def is_decimal_def)

lemma match_digits_s: "match_digits dg (CHR ''s'' # cs) = []"
  by (simp add: is_decimal_char_def utf8_width_def utf8_code_point_def is_decimal_def)

lemma match_placeholder_token:
  "match_placeholder dg str = Some tok \<longleftrightarrow>
     take (length tok) str = tok
     \<and> (tok = ''%s'' \<or> (\<exists>ds. decimal_digits dg ds \<and> tok = ''%'' @ ds @ ''$s''))"
proof
  assume m: "match_placeholder dg str = Some tok"
  then obtain c cs where str: "str = c # cs" "c = CHR ''%''"
    by (cases str) (auto split: if_splits)
  let ?ds = "match_digits dg cs"
  show "take (length tok) str = tok
     \<and> (tok = ''%s'' \<or> (\<exists>ds. decimal_digits dg ds \<and> tok = ''%'' @ ds @ ''$s''))"
  proof (cases "?ds \<noteq> [] \<and> take 2 (drop (length ?ds) cs) = ''$s''")
    case True
    then have tok: "tok = c # ?ds @ ''$s''"
      using m str by (simp add: Let_def)
    have "take (length ?ds + 2) cs = take (length ?ds) cs @ take 2 (drop (length ?ds) cs)"
      by (rule take_add)
    then have "take (length ?ds + 2) cs = ?ds @ ''$s''"
      using True by (simp add: match_digits_take)
    then have "take (length tok) str = tok"
      using tok str by simp
    moreover have "decimal_digits dg ?ds"
      using True match_digits_decimal by blast
    ultimately show ?thesis using tok str by auto
  next
    case False
    then have "take 1 cs = ''s'' \<and> tok = ''%s''"
      using m str by (auto simp: Let_def split: if_splits)
    then show ?thesis using str by (cases cs) auto
  qed
next
  assume a: "take (length tok) str = tok
     \<and> (tok = ''%s'' \<or> (\<exists>ds. decimal_digits dg ds \<and> tok = ''%'' @ ds @ ''$s''))"
  then consider (plain) "tok = ''%s''"
    | (numbered) ds where "decimal_digits dg ds" "tok = ''%'' @ ds @ ''$s''" by blast
  then show "match_placeholder dg str = Some tok"
  proof cases
    case plain
    with a obtain rest where "str = CHR ''%'' # CHR ''s'' # rest"
      by (cases str; cases "tl str") (auto split: if_splits)
    then show ?thesis using plain by (simp add: match_digits_s del: match_digits.simps)
  next
    case numbered
    from a have "str = tok @ drop (length tok) str"
      by (metis append_take_drop_id)
    with numbered obtain rest where str: "str = CHR ''%'' # ds @ CHR ''$'' # CHR ''s'' # rest"
      by (metis append_Cons append_Nil append_assoc)
    have ds: "match_digits dg (ds @ CHR ''$'' # CHR ''s'' # rest) = ds"
      using numbered(1) by (rule match_digits_of_decimal) (rule match_digits_dollar)
    have "ds \<noteq> []" using numbered(1) by (rule decimal_digits_not_empty)
    then show ?thesis using str ds numbered(2) by (simp add: Let_def del: match_digits.simps)
  qed
qed

lemma findall_tokens:
  "tok \<in> set (findall_placeholders dg str) \<Longrightarrow>
   tok = ''%s'' \<or> (\<exists>ds. decimal_digits dg ds \<and> tok = ''%'' @ ds @ ''$s'')"
proof (induction dg str rule: findall_placeholders.induct)
  case (1 dg)
  then show ?case by simp
next
  case (2 dg c cs)
  show ?case
  proof (cases "match_placeholder dg (c # cs)")
    case None
    with 2 show ?thesis by simp
  next
    case (Some t)
    with "2.prems" have "tok = t \<or> tok \<in> set (findall_placeholders dg (drop (length t - 1) cs))"
      by simp
    then show ?thesis
    proof
      assume "tok = t"
      with Some match_placeholder_token [of dg "c # cs" tok] show ?thesis by blast
    next
      assume "tok \<in> set (findall_placeholders dg (drop (length t - 1) cs))"
      with "2.IH"(2) [OF Some] show ?thesis by blast
    qed
  qed
qed

lemma findall_step:
  "match_placeholder dg (c # cs) = Some tok \<Longrightarrow>
   findall_placeholders dg (c # cs) = tok # findall_placeholders dg (drop (length tok) (c # cs))"
proof -
  assume m: "match_placeholder dg (c # cs) = Some tok"
  then have "tok \<noteq> []"
    using match_placeholder_token [of dg "c # cs" tok] by auto
  then have "drop (length tok) (c # cs) = drop (length tok - 1) cs"
    by (cases tok) simp_all
  with m show ?thesis by simp
qed

lemmas evaluate_pattern =
  is_decimal_char_def utf8_width_def utf8_code_point_def is_decimal_def fullwidth_one_def

lemma findall_deal_source: "findall_placeholders dg deal_source = [''%1$s'', ''%2$s'']"
  by (simp add: deal_source_def evaluate_pattern)

lemma findall_deal_french: "findall_placeholders dg deal_french = [''%1$s'', ''%2$s'']"
  by (simp add: deal_french_def evaluate_pattern)

lemma findall_deal_french_incomplete:
  "findall_placeholders dg deal_french_incomplete = [''%2$s'']"
  by (simp add: deal_french_incomplete_def evaluate_pattern)

lemma findall_mixed:
  "findall_placeholders dg ''%s and %12$s, but not %1s, %$s, 100% or %d'' = [''%s'', ''%12$s'']"
  by (simp add: evaluate_pattern)

lemma findall_fullwidth:
  "findall_placeholders dg (''x %'' @ fullwidth_one @ ''$s y'')
     = (if dg 0xFF11 then [''%'' @ fullwidth_one @ ''$s''] else [])"
  by (simp add: evaluate_pattern)

lemma validate_single:
  "validate_translation_result dg [(k, Str a)] [(k, Str b)]
     = (if mset (findall_placeholders dg a) = mset (findall_placeholders dg b) then []
        else [PlaceholderMismatch k a b])"
  by (simp add: validate_translation_result_def check_key_def
      validate_placeholder_consistency_mset)

text \<open>
  Claim C4. For a key of the input whose translated value is a string, the validator
  reports nothing about that key (neither a value that is not a string nor a placeholder
  mismatch) exactly when the placeholder tokens found by the pattern in the translated
  value and in the reference text are equal as multisets. The reference text is the
  input value itself, or the first element of a list, or the empty text for an empty
  list.

  The tokens are those of the pattern. At a position of a text the pattern matches the
  token \<open>tok\<close> exactly when the text goes on with \<open>tok\<close> there and \<open>tok\<close> is \<open>%s\<close>, or a
  percent sign, one or more decimal digits and \<open>$s\<close>; the scan starts at the left, goes
  on after the token where one matches and one byte further where none does. Decimal
  digits are the ASCII digits and the other decimal digits of Unicode, such as the
  fullwidth digit one when the interpreter's database lists it.

  Examples: in \<open>%s and %12$s, but not %1s, %$s, 100% or %d\<close> the tokens are \<open>%s\<close> and
  \<open>%12$s\<close>. For the source text \<open>Deal %1$s damage to %2$s\<close> the French translation that
  keeps both tokens passes, and the one that drops \<open>%1$s\<close> is reported. The tokens count
  with their multiplicity and without their order: \<open>%s\<close> for \<open>%s of %s\<close> is reported,
  \<open>%2$s %1$s\<close> for \<open>%1$s %2$s\<close> passes. A token written with the fullwidth digit one
  is a token other than \<open>%1$s\<close>.
\<close>

theorem placeholder_multiset_validation:
  assumes "distinct (map fst original)"
    and "(k, ov) \<in> set original"
    and "map_of translated k = Some (Str tv)"
  shows "((\<forall>e \<in> set (validate_translation_result dg original translated).
             e \<noteq> NotString k \<and> (\<forall>r t. e \<noteq> PlaceholderMismatch k r t))
          \<longleftrightarrow> mset (findall_placeholders dg (reference_value ov)) = mset (findall_placeholders dg tv))
       \<and> reference_value (Str s) = s
       \<and> reference_value (StrList (x # xs)) = x
       \<and> reference_value (StrList []) = []
       \<and> (match_placeholder dg str = Some tok \<longleftrightarrow>
            take (length tok) str = tok
            \<and> (tok = ''%s'' \<or> (\<exists>ds. decimal_digits dg ds \<and> tok = ''%'' @ ds @ ''$s'')))
       \<and> findall_placeholders dg [] = []
       \<and> (match_placeholder dg (c # cs) = Some tok \<longrightarrow>
            findall_placeholders dg (c # cs)
              = tok # findall_placeholders dg (drop (length tok) (c # cs)))
       \<and> (match_placeholder dg (c # cs) = None \<longrightarrow>
            findall_placeholders dg (c # cs) = findall_placeholders dg cs)
       \<and> decimal_digits dg ''7'' \<and> decimal_digits dg ''2024''
       \<and> \<not> decimal_digits dg [] \<and> \<not> decimal_digits dg ''1a'' \<and> \<not> decimal_digits dg ''n''
       \<and> (decimal_digits dg fullwidth_one \<longleftrightarrow> dg 0xFF11)
       \<and> (decimal_digits dg (''1'' @ fullwidth_one) \<longleftrightarrow> dg 0xFF11)
       \<and> findall_placeholders dg ''%s and %12$s, but not %1s, %$s, 100% or %d''
            = [''%s'', ''%12$s'']
       \<and> findall_placeholders dg (''x %'' @ fullwidth_one @ ''$s y'')
            = (if dg 0xFF11 then [''%'' @ fullwidth_one @ ''$s''] else [])
       \<and> validate_translation_result dg [(k', Str deal_source)] [(k', Str deal_french)] = []
       \<and> validate_translation_result dg [(k', Str deal_source)] [(k', Str deal_french_incomplete)]
           = [PlaceholderMismatch k' deal_source deal_french_incomplete]
       \<and> validate_translation_result dg [(k', Str ''%s of %s'')] [(k', Str ''%s'')]
           = [PlaceholderMismatch k' ''%s of %s'' ''%s'']
       \<and> validate_translation_result dg [(k', Str ''%1$s %2$s'')] [(k', Str ''%2$s %1$s'')] = []
       \<and> validate_translation_result dg [(k', Str ''Level %1$s'')]
             [(k', Str (''Niveau %'' @ fullwidth_one @ ''$s''))]
           = [PlaceholderMismatch k' ''Level %1$s'' (''Niveau %'' @ fullwidth_one @ ''$s'')]"
proof -
  have unique: "ov' = ov" if "(k, ov') \<in> set original" for ov'
    using assms(1,2) that by (meson eq_key_imp_eq_value)
  have shared: "k \<in> fst ` set translated"
    using assms(3) by (metis map_of_SomeD fst_conv image_eqI)
  have mem: "e \<in> set (validate_translation_result dg original translated)
               \<longleftrightarrow> e \<in> set (check_key dg translated k ov)"
    if "e = NotString k \<or> (\<exists>r t. e = PlaceholderMismatch k r t)" for e
    using key_error_mem [OF that, of dg original translated] unique assms(2) shared by blast
  have "(\<forall>e \<in> set (validate_translation_result dg original translated).
             e \<noteq> NotString k \<and> (\<forall>r t. e \<noteq> PlaceholderMismatch k r t))
        \<longleftrightarrow> check_key dg translated k ov = []"
  proof
    assume a: "\<forall>e \<in> set (validate_translation_result dg original translated).
             e \<noteq> NotString k \<and> (\<forall>r t. e \<noteq> PlaceholderMismatch k r t)"
    show "check_key dg translated k ov = []"
    proof (rule ccontr)
      assume "check_key dg translated k ov \<noteq> []"
      then obtain e where e: "e \<in> set (check_key dg translated k ov)"
        by (meson last_in_set)
      then have "e = NotString k \<or> (\<exists>r t. e = PlaceholderMismatch k r t)"
        by (rule check_key_names_key)
      with e mem a show False by blast
    qed
  next
    assume "check_key dg translated k ov = []"
    then show "\<forall>e \<in> set (validate_translation_result dg original translated).
             e \<noteq> NotString k \<and> (\<forall>r t. e \<noteq> PlaceholderMismatch k r t)"
      using mem by (metis empty_iff list.set(1))
  qed
  also have "\<dots> \<longleftrightarrow> mset (findall_placeholders dg (reference_value ov))
                      = mset (findall_placeholders dg tv)"
    by (simp add: check_key_Str [OF assms(3)])
  finally have main: "(\<forall>e \<in> set (validate_translation_result dg original translated).
             e \<noteq> NotString k \<and> (\<forall>r t. e \<noteq> PlaceholderMismatch k r t))
          \<longleftrightarrow> mset (findall_placeholders dg (reference_value ov)) = mset (findall_placeholders dg tv)" .
  have ref: "reference_value (Str s) = s" "reference_value (StrList (x # xs)) = x"
    "reference_value (StrList []) = []"
    by simp_all
  have token: "match_placeholder dg str = Some tok \<longleftrightarrow>
            take (length tok) str = tok
            \<and> (tok = ''%s'' \<or> (\<exists>ds. decimal_digits dg ds \<and> tok = ''%'' @ ds @ ''$s''))"
    by (rule match_placeholder_token)
  have scan: "findall_placeholders dg [] = []"
    "match_placeholder dg (c # cs) = Some tok \<longrightarrow>
            findall_placeholders dg (c # cs)
              = tok # findall_placeholders dg (drop (length tok) (c # cs))"
    "match_placeholder dg (c # cs) = None \<longrightarrow>
            findall_placeholders dg (c # cs) = findall_placeholders dg cs"
    using findall_step [of dg c cs tok] by simp_all
  have digits: "decimal_digits dg ''7''" "decimal_digits dg ''2024''"
    "\<not> decimal_digits dg []" "\<not> decimal_digits dg ''1a''" "\<not> decimal_digits dg ''n''"
    "decimal_digits dg fullwidth_one \<longleftrightarrow> dg 0xFF11"
    "decimal_digits dg (''1'' @ fullwidth_one) \<longleftrightarrow> dg 0xFF11"
    by (simp_all add: evaluate_pattern)
  have ok: "validate_translation_result dg [(k', Str deal_source)] [(k', Str deal_french)] = []"
    by (simp add: validate_single findall_deal_source findall_deal_french)
  have bad: "validate_translation_result dg [(k', Str deal_source)] [(k', Str deal_french_incomplete)]
           = [PlaceholderMismatch k' deal_source deal_french_incomplete]"
    by (simp add: validate_single findall_deal_source findall_deal_french_incomplete)
  have count: "validate_translation_result dg [(k', Str ''%s of %s'')] [(k', Str ''%s'')]
           = [PlaceholderMismatch k' ''%s of %s'' ''%s'']"
    unfolding validate_single by (simp add: evaluate_pattern)
  have order: "validate_translation_result dg [(k', Str ''%1$s %2$s'')] [(k', Str ''%2$s %1$s'')] = []"
    unfolding validate_single by (simp add: evaluate_pattern)
  have wide: "validate_translation_result dg [(k', Str ''Level %1$s'')]
             [(k', Str (''Niveau %'' @ fullwidth_one @ ''$s''))]
           = [PlaceholderMismatch k' ''Level %1$s'' (''Niveau %'' @ fullwidth_one @ ''$s'')]"
    unfolding validate_single by (simp add: evaluate_pattern)
  show ?thesis
    by (intro conjI main ref token scan digits findall_mixed findall_fullwidth ok bad count
        order wide)
qed

theorem placeholder_multiset_validation_witness:
  "distinct (map fst [(''attack.tip'', StrList [deal_source, ''Schaden'']), (''title'', Str ''Hi'')])
   \<and> (''attack.tip'', StrList [deal_source, ''Schaden''])
        \<in> set [(''attack.tip'', StrList [deal_source, ''Schaden'']), (''title'', Str ''Hi'')]
   \<and> map_of [(''attack.tip'', Str deal_french)] ''attack.tip'' = Some (Str deal_french)
   \<and> mset (findall_placeholders (\<lambda>cp. 0xFF10 \<le> cp \<and> cp \<le> 0xFF19)
              (reference_value (StrList [deal_source, ''Schaden''])))
       = mset (findall_placeholders (\<lambda>cp. 0xFF10 \<le> cp \<and> cp \<le> 0xFF19) deal_french)
   \<and> NotString ''attack.tip''
       \<notin> set (validate_translation_result (\<lambda>cp. 0xFF10 \<le> cp \<and> cp \<le> 0xFF19)
                [(''attack.tip'', StrList [deal_source, ''Schaden'']), (''title'', Str ''Hi'')]
                [(''attack.tip'', Str deal_french)])
   \<and> PlaceholderMismatch ''attack.tip'' deal_source deal_french
       \<notin> set (validate_translation_result (\<lambda>cp. 0xFF10 \<le> cp \<and> cp \<le> 0xFF19)
                [(''attack.tip'', StrList [deal_source, ''Schaden'']), (''title'', Str ''Hi'')]
                [(''attack.tip'', Str deal_french)])
   \<and> match_placeholder (\<lambda>cp. 0xFF10 \<le> cp \<and> cp \<le> 0xFF19) ''%2$s left'' = Some ''%2$s''
   \<and> findall_placeholders (\<lambda>cp. 0xFF10 \<le> cp \<and> cp \<le> 0xFF19) ''%2$s left''
       = ''%2$s'' # findall_placeholders (\<lambda>cp. 0xFF10 \<le> cp \<and> cp \<le> 0xFF19) '' left''
   \<and> match_placeholder (\<lambda>cp. 0xFF10 \<le> cp \<and> cp \<le> 0xFF19) ''% left'' = None
   \<and> findall_placeholders (\<lambda>cp. 0xFF10 \<le> cp \<and> cp \<le> 0xFF19) ''% left''
       = findall_placeholders (\<lambda>cp. 0xFF10 \<le> cp \<and> cp \<le> 0xFF19) '' left''
   \<and> decimal_digits (\<lambda>cp. 0xFF10 \<le> cp \<and> cp \<le> 0xFF19) fullwidth_one"
proof -
  let ?dg = "\<lambda>cp::nat. 0xFF10 \<le> cp \<and> cp \<le> 0xFF19"
  let ?orig = "[(''attack.tip'', StrList [deal_source, ''Schaden'']), (''title'', Str ''Hi'')]"
  have 1: "distinct (map fst ?orig)" by simp
  have 2: "(''attack.tip'', StrList [deal_source, ''Schaden'']) \<in> set ?orig" by simp
  have 3: "map_of [(''attack.tip'', Str deal_french)] ''attack.tip'' = Some (Str deal_french)"
    by simp
  have 4: "mset (findall_placeholders ?dg (reference_value (StrList [deal_source, ''Schaden''])))
             = mset (findall_placeholders ?dg deal_french)"
    by (simp add: findall_deal_source findall_deal_french)
  have 5: "match_placeholder ?dg ''%2$s left'' = Some ''%2$s''"
    by (simp add: evaluate_pattern)
  have 6: "match_placeholder ?dg ''% left'' = None"
    by (simp add: evaluate_pattern)
  note t = placeholder_multiset_validation [OF 1 2 3, where dg = ?dg]
  have a: "NotString ''attack.tip''
       \<notin> set (validate_translation_result ?dg ?orig [(''attack.tip'', Str deal_french)])"
    "PlaceholderMismatch ''attack.tip'' deal_source deal_french
       \<notin> set (validate_translation_result ?dg ?orig [(''attack.tip'', Str deal_french)])"
    using t [THEN conjunct1] 4 by blast+
  have b: "findall_placeholders ?dg ''%2$s left'' = ''%2$s'' # findall_placeholders ?dg '' left''"
    using t [where c = "CHR ''%''" and cs = "''2$s left''" and tok = "''%2$s''"] 5 by simp
  have c: "findall_placeholders ?dg ''% left'' = findall_placeholders ?dg '' left''"
    using t [where c = "CHR ''%''" and cs = "'' left''"] 6 by simp
  have d: "decimal_digits ?dg fullwidth_one"
    using t by simp
  from 1 2 3 4 a 5 b 6 c d show ?thesis by (intro conjI)
qed

section \<open>Properties of the retry state machine\<close>

declare exec_loop.simps [simp del]





lemma run_attempt_api_failure:
  assumes sv: "\<forall>n t m. \<exists>e. translate_batch dg (sv n t m) tx = Inl e \<and> \<not> is_validation_failure e"
    and s: "validation_failure_count s = 0"
  shows "\<exists>s'. run_attempt dg r sv tx s
               = (if api_failure_count s + 1 < r \<and> 0 < r then Continue s' else Return [] s')
           \<and> api_failure_count s' = api_failure_count s + 1
           \<and> validation_failure_count s' = 0
           \<and> total_attempts s' = total_attempts s + 1"
proof -
  obtain e where e:
    "translate_batch dg (sv (total_attempts s + 1) (13 / 10) (non_thinking_mode s)) tx = Inl e"
    "\<not> is_validation_failure e"
    using sv by blast
  show ?thesis
    using s e by (simp add: run_attempt_def Let_def)
qed

lemma exec_loop_api_failure:
  "\<forall>n t m. \<exists>e. translate_batch dg (sv n t m) tx = Inl e \<and> \<not> is_validation_failure e \<Longrightarrow>
   validation_failure_count s = 0 \<Longrightarrow> api_failure_count s < r \<Longrightarrow>
   \<exists>s'. exec_loop dg r sv tx s = Some ([], s')
      \<and> api_failure_count s' = r \<and> validation_failure_count s' = 0
      \<and> total_attempts s' = total_attempts s + (r - api_failure_count s)"
proof (induction dg r sv tx s rule: exec_loop.induct)
  case (1 dg r sv tx s)
  note sv = "1.prems"(1) and s = "1.prems"(2,3)
  from run_attempt_api_failure [OF sv s(1), of r]
  obtain s1 where s1:
    "run_attempt dg r sv tx s
       = (if api_failure_count s + 1 < r \<and> 0 < r then Continue s1 else Return [] s1)"
    "api_failure_count s1 = api_failure_count s + 1" "validation_failure_count s1 = 0"
    "total_attempts s1 = total_attempts s + 1" by blast
  show ?case
  proof (cases "api_failure_count s + 1 < r")
    case True
    then have c: "run_attempt dg r sv tx s = Continue s1" using s1(1) by simp
    from "1.IH" [OF _ c sv s1(3)] s True s1(2)
    obtain s' where "exec_loop dg r sv tx s1 = Some ([], s')"
      "api_failure_count s' = r" "validation_failure_count s' = 0"
      "total_attempts s' = total_attempts s1 + (r - api_failure_count s1)" by auto
    then show ?thesis using s c s1 True by (subst exec_loop.simps) auto
  next
    case False
    then have c: "run_attempt dg r sv tx s = Return [] s1" using s1(1) by simp
    show ?thesis using s c s1 False by (subst exec_loop.simps) auto
  qed
qed


lemma validate_translation_result_keys:
  assumes "set (map fst original) \<noteq> set (map fst translated)"
  shows "validate_translation_result dg original translated \<noteq> []"
proof -
  have "filter (\<lambda>k. k \<notin> set (map fst translated)) (map fst original) \<noteq> []
        \<or> filter (\<lambda>k. k \<notin> set (map fst original)) (map fst translated) \<noteq> []"
    using assms by (auto simp: filter_empty_conv)
  then show ?thesis
    using assms by (auto simp: validate_translation_result_def Let_def)
qed







lemma json_failure_not_validation:
  "\<not> py_in validation_failure_text
        (json_failure_prefix @ ''Expecting value: line 1 column 1 (char 0)'')"
  by (simp add: validation_failure_text_def json_failure_prefix_def)

text \<open>
  Claim C1, on the code. The service answers every call with a reply text that is not
  JSON (the decoder's message for such a text is the one below). Line 395 raises a
  \<open>ValueError\<close> whose message lacks the text that line 574 looks for, so the attempt
  is counted as an API failure: after the first attempt the API counter is 1 and the
  validation counter 0, and the request ends after ten attempts with the API counter
  exhausted and the validation counter untouched.
\<close>

theorem json_parse_failure_counted_as_api_failure:
  "(\<exists>s. run_attempt dg MAX_INDIVIDUAL_RETRIES
           (\<lambda>n t m. ContentNotJson ''Expecting value: line 1 column 1 (char 0)'')
           [(''greeting'', Str ''Hello'')] (initial_state False) = Continue s
        \<and> api_failure_count s = 1 \<and> validation_failure_count s = 0)
   \<and> (\<exists>s. execute_translation_request dg
             (\<lambda>n t m. ContentNotJson ''Expecting value: line 1 column 1 (char 0)'') False
             [(''greeting'', Str ''Hello'')] = Some ([], s)
          \<and> total_attempts s = 10 \<and> api_failure_count s = 10 \<and> validation_failure_count s = 0)"
proof -
  let ?sv = "\<lambda>(n::nat) (t::real) (m::bool).
               ContentNotJson ''Expecting value: line 1 column 1 (char 0)''"
  let ?tx = "[(''greeting'', Str ''Hello'')]"
  let ?s0 = "initial_state False"
  have tb: "\<forall>n t m. \<exists>e. translate_batch dg (?sv n t m) ?tx = Inl e \<and> \<not> is_validation_failure e"
    using json_failure_not_validation
    by (simp add: translate_batch_def core_keys_marker_def is_validation_failure_def)
  have s0: "api_failure_count ?s0 = 0" "validation_failure_count ?s0 = 0" "total_attempts ?s0 = 0"
    by (simp_all add: initial_state_def)
  from run_attempt_api_failure [OF tb s0(2), of MAX_INDIVIDUAL_RETRIES]
  have one: "\<exists>s. run_attempt dg MAX_INDIVIDUAL_RETRIES ?sv ?tx ?s0 = Continue s
        \<and> api_failure_count s = 1 \<and> validation_failure_count s = 0"
    by (auto simp add: s0 MAX_INDIVIDUAL_RETRIES_def)
  from exec_loop_api_failure [OF tb s0(2), of MAX_INDIVIDUAL_RETRIES]
  have "\<exists>s. execute_translation_request dg ?sv False ?tx = Some ([], s)
          \<and> total_attempts s = 10 \<and> api_failure_count s = 10 \<and> validation_failure_count s = 0"
    by (auto simp add: s0 MAX_INDIVIDUAL_RETRIES_def execute_translation_request_def)
  with one show ?thesis by (intro conjI)
qed


lemma run_attempt_log:
  assumes "run_attempt dg r sv tx s = Continue s' \<or> run_attempt dg r sv tx s = Return res s'"
  shows "non_thinking_mode s' = non_thinking_mode s
       \<and> total_attempts s' = total_attempts s + 1
       \<and> (\<exists>a. attempts s' = attempts s @ [a]
              \<and> attempt_number a = total_attempts s + 1
              \<and> api_failures_before a = api_failure_count s
              \<and> validation_failures_before a = validation_failure_count s
              \<and> (attempt_temperature a, attempt_non_thinking a)
                  = (if validation_failure_count s > 0
                     then get_temperature_and_mode (non_thinking_mode s) (validation_failure_count s)
                     else (13 / 10, non_thinking_mode s)))"
  using assms
  by (auto simp: run_attempt_def Let_def split: sum.splits if_splits prod.splits)

lemma exec_loop_log:
  "exec_loop dg r sv tx s = Some (res, s') \<Longrightarrow>
   map attempt_number (attempts s) = [1 ..< Suc (total_attempts s)] \<Longrightarrow>
   \<forall>a \<in> set (attempts s).
     (attempt_temperature a, attempt_non_thinking a)
       = (if validation_failures_before a > 0
          then get_temperature_and_mode (non_thinking_mode s) (validation_failures_before a)
          else (13 / 10, non_thinking_mode s)) \<Longrightarrow>
   map attempt_number (attempts s') = [1 ..< Suc (total_attempts s')]
   \<and> (\<forall>a \<in> set (attempts s').
     (attempt_temperature a, attempt_non_thinking a)
       = (if validation_failures_before a > 0
          then get_temperature_and_mode (non_thinking_mode s) (validation_failures_before a)
          else (13 / 10, non_thinking_mode s)))"
proof (induction dg r sv tx s rule: exec_loop.induct)
  case (1 dg r sv tx s)
  note run = "1.prems"(1) and num = "1.prems"(2) and inv = "1.prems"(3)
  have cond: "api_failure_count s < r \<and> validation_failure_count s < r"
    using run by (subst (asm) exec_loop.simps) (auto split: if_splits)
  show ?case
  proof (cases "run_attempt dg r sv tx s")
    case (Continue s1)
    from run_attempt_log [of dg r sv tx s s1] Continue
    obtain a where a: "non_thinking_mode s1 = non_thinking_mode s"
      "total_attempts s1 = total_attempts s + 1"
      "attempts s1 = attempts s @ [a]" "attempt_number a = total_attempts s + 1"
      "validation_failures_before a = validation_failure_count s"
      "(attempt_temperature a, attempt_non_thinking a)
         = (if validation_failure_count s > 0
            then get_temperature_and_mode (non_thinking_mode s) (validation_failure_count s)
            else (13 / 10, non_thinking_mode s))" by blast
    have run1: "exec_loop dg r sv tx s1 = Some (res, s')"
      using run cond Continue by (subst (asm) exec_loop.simps) simp
    have num1: "map attempt_number (attempts s1) = [1 ..< Suc (total_attempts s1)]"
      using num a by simp
    have inv1: "\<forall>a \<in> set (attempts s1).
       (attempt_temperature a, attempt_non_thinking a)
         = (if validation_failures_before a > 0
            then get_temperature_and_mode (non_thinking_mode s1) (validation_failures_before a)
            else (13 / 10, non_thinking_mode s1))"
      using inv a by auto
    from "1.IH" [OF _ Continue run1 num1 inv1] cond a(1) show ?thesis by simp
  next
    case (Return res1 s1)
    from run_attempt_log [of dg r sv tx s s1 res1] Return
    obtain a where a: "non_thinking_mode s1 = non_thinking_mode s"
      "total_attempts s1 = total_attempts s + 1"
      "attempts s1 = attempts s @ [a]" "attempt_number a = total_attempts s + 1"
      "validation_failures_before a = validation_failure_count s"
      "(attempt_temperature a, attempt_non_thinking a)
         = (if validation_failure_count s > 0
            then get_temperature_and_mode (non_thinking_mode s) (validation_failure_count s)
            else (13 / 10, non_thinking_mode s))" by blast
    have "s' = s1"
      using run cond Return by (subst (asm) exec_loop.simps) simp
    then show ?thesis using num inv a by auto
  qed
qed

text \<open>
  An execution that runs alone, with no other execution of the same translator at work.
  Each attempt (each call of \<open>translate_batch\<close>) made with no validation failure so far,
  whatever the number of API failures, uses the default temperature and the translator's
  own model variant; an attempt made after \<open>v\<close> validation failures uses, for \<open>v\<close> from
  1 to 5, the \<open>v\<close>-th temperature of the schedule with the translator's own variant, and
  from 6 on the variant flipped and the schedule entry at \<open>(v - 6) mod 5\<close>, so the
  schedule starts again. The schedule has five entries, never rising (the first two are
  equal). The attempts are numbered from 1 in the order they are made.
\<close>

theorem lone_execution_escalates:
  assumes "execute_translation_request dg sv nt tx = Some (res, s)"
    and "a \<in> set (attempts s)"
  shows "(validation_failures_before a = 0 \<longrightarrow>
            attempt_temperature a = DEFAULT_TEMPERATURE \<and> attempt_non_thinking a = nt)
       \<and> (1 \<le> validation_failures_before a \<and> validation_failures_before a \<le> 5 \<longrightarrow>
            attempt_temperature a = TEMPERATURE_ADJUSTMENTS ! (validation_failures_before a - 1)
            \<and> attempt_non_thinking a = nt)
       \<and> (6 \<le> validation_failures_before a \<longrightarrow>
            attempt_temperature a
              = TEMPERATURE_ADJUSTMENTS ! ((validation_failures_before a - 6) mod 5)
            \<and> attempt_non_thinking a = (\<not> nt))
       \<and> length TEMPERATURE_ADJUSTMENTS = 5
       \<and> sorted (rev TEMPERATURE_ADJUSTMENTS)
       \<and> map attempt_number (attempts s) = [1 ..< Suc (total_attempts s)]"
proof -
  let ?s0 = "initial_state nt"
  have run: "exec_loop dg MAX_INDIVIDUAL_RETRIES sv tx ?s0 = Some (res, s)"
    using assms(1) by (simp add: execute_translation_request_def)
  have s0: "attempts ?s0 = []" "total_attempts ?s0 = 0" "non_thinking_mode ?s0 = nt"
    by (simp_all add: initial_state_def)
  from exec_loop_log [OF run] s0
  have num: "map attempt_number (attempts s) = [1 ..< Suc (total_attempts s)]"
    and inv: "\<forall>a \<in> set (attempts s).
       (attempt_temperature a, attempt_non_thinking a)
         = (if validation_failures_before a > 0
            then get_temperature_and_mode nt (validation_failures_before a)
            else (13 / 10, nt))"
    by simp_all
  from inv assms(2)
  have a: "(attempt_temperature a, attempt_non_thinking a)
         = (if validation_failures_before a > 0
            then get_temperature_and_mode nt (validation_failures_before a)
            else (13 / 10, nt))" by blast
  have sched: "length TEMPERATURE_ADJUSTMENTS = 5" "sorted (rev TEMPERATURE_ADJUSTMENTS)"
    by (simp_all add: TEMPERATURE_ADJUSTMENTS_def)
  show ?thesis
    using a num sched
    by (auto simp: get_temperature_and_mode_def DEFAULT_TEMPERATURE_def split: if_splits)
qed


lemma escalation_run:
  "\<exists>s. execute_translation_request dg
         (\<lambda>n t m. if n \<le> 6 then ContentObject [] else ContentObject [(''greeting'', Str ''Bonjour'')])
         False [(''greeting'', Str ''Hello'')] = Some ([(''greeting'', Str ''Bonjour'')], s)
     \<and> length (attempts s) = 7
     \<and> validation_failures_before (attempts s ! 6) = 6"
  by (simp add: execute_translation_request_def MAX_INDIVIDUAL_RETRIES_def initial_state_def
      exec_loop.simps run_attempt_def translate_batch_def core_keys_marker_def
      validate_translation_result_def check_key_def validate_placeholder_consistency_def
      get_temperature_and_mode_def TEMPERATURE_ADJUSTMENTS_def is_validation_failure_def Let_def)

theorem lone_execution_escalates_witness:
  "\<exists>res s. execute_translation_request (\<lambda>cp. False)
         (\<lambda>n t m. if n \<le> 6 then ContentObject [] else ContentObject [(''greeting'', Str ''Bonjour'')])
         False [(''greeting'', Str ''Hello'')] = Some (res, s)
     \<and> attempts s ! 6 \<in> set (attempts s)
     \<and> validation_failures_before (attempts s ! 6) = 6
     \<and> attempt_temperature (attempts s ! 6) = TEMPERATURE_ADJUSTMENTS ! 0
     \<and> attempt_non_thinking (attempts s ! 6) = True"
proof -
  let ?sv = "\<lambda>(n::nat) (t::real) (m::bool).
      if n \<le> 6 then ContentObject [] else ContentObject [(''greeting'', Str ''Bonjour'')]"
  let ?tx = "[(''greeting'', Str ''Hello'')]"
  obtain s where s: "execute_translation_request (\<lambda>cp. False) ?sv False ?tx
                       = Some ([(''greeting'', Str ''Bonjour'')], s)"
    "length (attempts s) = 7" "validation_failures_before (attempts s ! 6) = 6"
    using escalation_run by blast
  have mem: "attempts s ! 6 \<in> set (attempts s)"
    using s(2) by simp
  from lone_execution_escalates [OF s(1) mem] s(3)
  have "attempt_temperature (attempts s ! 6) = TEMPERATURE_ADJUSTMENTS ! 0"
    "attempt_non_thinking (attempts s ! 6) = True"
    by simp_all
  with s mem show ?thesis by blast
qed




lemma run_attempt_phases:
  "run_attempt dg r sv tx s =
     (let (temperature, original_mode, s2) = begin_attempt s
      in end_attempt r original_mode
           (translate_batch dg (sv (total_attempts s2) temperature (non_thinking_mode s2)) tx) s2)"
  by (cases "0 < validation_failure_count s";
      cases "get_temperature_and_mode (non_thinking_mode s) (validation_failure_count s)";
      auto simp add: run_attempt_def begin_attempt_def end_attempt_def Let_def split: sum.splits)

lemma exec_loop_after_attempts:
  "after_attempts dg n r sv tx s = Some s' \<Longrightarrow> exec_loop dg r sv tx s = exec_loop dg r sv tx s'"
proof (induction n arbitrary: s)
  case 0
  then show ?case by simp
next
  case (Suc n)
  from Suc.prems
  have cond: "api_failure_count s < r \<and> validation_failure_count s < r"
    by (auto split: if_splits)
  from Suc.prems cond obtain s1 where s1: "run_attempt dg r sv tx s = Continue s1"
    "after_attempts dg n r sv tx s1 = Some s'"
    by (auto split: step.splits)
  have "exec_loop dg r sv tx s = exec_loop dg r sv tx s1"
    using cond s1(1) by (subst exec_loop.simps) simp
  with Suc.IH [OF s1(2)] show ?case by simp
qed

lemma six_validation_failures:
  "\<exists>sA. after_attempts dg 6 MAX_INDIVIDUAL_RETRIES (\<lambda>n t m. ContentObject [])
         [(''greeting'', Str ''Hello'')] (initial_state False) = Some sA
     \<and> validation_failure_count sA = 6 \<and> non_thinking_mode sA = False"
  by (simp add: eval_nat_numeral MAX_INDIVIDUAL_RETRIES_def initial_state_def
      run_attempt_def translate_batch_def core_keys_marker_def
      validate_translation_result_def check_key_def validate_placeholder_consistency_def
      get_temperature_and_mode_def TEMPERATURE_ADJUSTMENTS_def is_validation_failure_def Let_def)

lemma one_api_failure:
  "\<exists>sB. after_attempts dg 1 MAX_INDIVIDUAL_RETRIES (\<lambda>n t m. RequestFailed ''Read timed out.'')
         [(''farewell'', Str ''Goodbye'')] (initial_state False) = Some sB
     \<and> api_failure_count sB = 1 \<and> validation_failure_count sB = 0
     \<and> non_thinking_mode sB = False"
  by (simp add: MAX_INDIVIDUAL_RETRIES_def initial_state_def
      run_attempt_def translate_batch_def core_keys_marker_def
      is_validation_failure_def validation_failure_text_def Let_def)

lemma one_api_failure_attempts:
  "after_attempts dg 1 MAX_INDIVIDUAL_RETRIES (\<lambda>n t m. RequestFailed ''Read timed out.'')
         [(''farewell'', Str ''Goodbye'')] (initial_state False) = Some sB
   \<Longrightarrow> total_attempts sB = 1"
  by (auto simp: MAX_INDIVIDUAL_RETRIES_def initial_state_def
      run_attempt_def translate_batch_def core_keys_marker_def
      is_validation_failure_def validation_failure_text_def Let_def)

text \<open>
  Claim C8, on the code. Two requests of one translator whose own variant is the careful
  one (\<open>non_thinking_mode\<close> false) run at once. Every reply to the first is an object
  without the key asked for: after six attempts it has six validation failures, and at
  the start of its seventh attempt line 541 writes the flipped variant into
  \<open>self.non_thinking_mode\<close>. The first call of the second request has timed out: it has
  one API failure and no validation failure. When its second attempt starts while the
  first request is in its seventh call, it takes the default temperature, and the
  variant it reads for its call is the flipped one, not the translator's own; started
  before that write, the same attempt reads the translator's own variant.
\<close>

theorem concurrent_attempt_reads_flipped_variant:
  "\<exists>sA sB tA oA sA' tB oB sB' tC oC sC'.
     after_attempts dg 6 MAX_INDIVIDUAL_RETRIES (\<lambda>n t m. ContentObject [])
         [(''greeting'', Str ''Hello'')] (initial_state False) = Some sA
     \<and> validation_failure_count sA = 6 \<and> non_thinking_mode sA = False
     \<and> after_attempts dg 1 MAX_INDIVIDUAL_RETRIES (\<lambda>n t m. RequestFailed ''Read timed out.'')
         [(''farewell'', Str ''Goodbye'')] (initial_state False) = Some sB
     \<and> api_failure_count sB = 1 \<and> validation_failure_count sB = 0
     \<and> non_thinking_mode sB = False
     \<and> begin_attempt sA = (tA, oA, sA')
     \<and> tA = TEMPERATURE_ADJUSTMENTS ! 0 \<and> non_thinking_mode sA' = True
     \<and> begin_attempt (with_attribute_of sA' sB) = (tB, oB, sB')
     \<and> tB = DEFAULT_TEMPERATURE
     \<and> api_failure_count sB' = 1 \<and> validation_failure_count sB' = 0
     \<and> total_attempts sB' = 2
     \<and> non_thinking_mode sB' = True
     \<and> begin_attempt sB = (tC, oC, sC')
     \<and> non_thinking_mode sC' = False"
proof -
  obtain sA where sA: "after_attempts dg 6 MAX_INDIVIDUAL_RETRIES (\<lambda>n t m. ContentObject [])
         [(''greeting'', Str ''Hello'')] (initial_state False) = Some sA"
    "validation_failure_count sA = 6" "non_thinking_mode sA = False"
    using six_validation_failures by blast
  obtain sB where sB: "after_attempts dg 1 MAX_INDIVIDUAL_RETRIES
         (\<lambda>n t m. RequestFailed ''Read timed out.'')
         [(''farewell'', Str ''Goodbye'')] (initial_state False) = Some sB"
    "api_failure_count sB = 1" "validation_failure_count sB = 0" "non_thinking_mode sB = False"
    using one_api_failure by blast
  obtain tA oA sA' where a: "begin_attempt sA = (tA, oA, sA')"
    by (cases "begin_attempt sA") auto
  have a': "tA = TEMPERATURE_ADJUSTMENTS ! 0" "non_thinking_mode sA' = True"
    using a sA(2,3)
    by (auto simp: begin_attempt_def get_temperature_and_mode_def Let_def)
  obtain tB oB sB' where b: "begin_attempt (with_attribute_of sA' sB) = (tB, oB, sB')"
    by (cases "begin_attempt (with_attribute_of sA' sB)") auto
  have b': "tB = DEFAULT_TEMPERATURE" "api_failure_count sB' = 1"
    "validation_failure_count sB' = 0" "total_attempts sB' = 2" "non_thinking_mode sB' = True"
    using b sB(2,3) one_api_failure_attempts [OF sB(1)] a'(2)
    by (auto simp: begin_attempt_def with_attribute_of_def DEFAULT_TEMPERATURE_def Let_def)
  obtain tC oC sC' where c: "begin_attempt sB = (tC, oC, sC')"
    by (cases "begin_attempt sB") auto
  have c': "non_thinking_mode sC' = False"
    using c sB(3,4) by (auto simp: begin_attempt_def Let_def)
  from sA sB a a' b b' c c' show ?thesis by blast
qed

section \<open>Properties of the collected results\<close>

lemma validate_translation_result_ok_keys:
  "validate_translation_result dg original translated = [] \<Longrightarrow>
   set (map fst translated) = set (map fst original)"
  using validate_translation_result_keys by metis

lemma translate_batch_keys:
  assumes "translate_batch dg reply tx = Inr res"
  shows "res = [] \<or> set (map fst res) = set (map fst tx) - {core_keys_marker}"
proof -
  have keys: "set (map fst (filter (\<lambda>(k, v). k \<noteq> core_keys_marker) tx))
                = set (map fst tx) - {core_keys_marker}"
    by auto
  show ?thesis
    using assms validate_translation_result_ok_keys [of dg "filter (\<lambda>(k, v). k \<noteq> core_keys_marker) tx"]
    unfolding keys
    by (auto simp: translate_batch_def Let_def split: if_splits service_reply.splits)
qed

lemma run_attempt_Return_keys:
  assumes "run_attempt dg r sv tx s = Return res s'"
  shows "res = [] \<or> set (map fst res) = set (map fst tx) - {core_keys_marker}"
proof -
  have "res = [] \<or> (\<exists>n t m. translate_batch dg (sv n t m) tx = Inr res)"
    using assms
    by (auto simp: run_attempt_def Let_def split: sum.splits if_splits prod.splits)
  then show ?thesis using translate_batch_keys by blast
qed

lemma exec_loop_keys:
  "exec_loop dg r sv tx s = Some (res, s') \<Longrightarrow>
   res = [] \<or> set (map fst res) = set (map fst tx) - {core_keys_marker}"
proof (induction dg r sv tx s rule: exec_loop.induct)
  case (1 dg r sv tx s)
  have cond: "api_failure_count s < r \<and> validation_failure_count s < r"
    using "1.prems" by (subst (asm) exec_loop.simps) (auto split: if_splits)
  show ?case
  proof (cases "run_attempt dg r sv tx s")
    case (Continue s1)
    have "exec_loop dg r sv tx s1 = Some (res, s')"
      using "1.prems" cond Continue by (subst (asm) exec_loop.simps) simp
    from "1.IH" [OF _ Continue this] cond show ?thesis by simp
  next
    case (Return res1 s1)
    have "res = res1"
      using "1.prems" cond Return by (subst (asm) exec_loop.simps) simp
    with run_attempt_Return_keys [OF Return] show ?thesis by simp
  qed
qed

lemma update_key_set:
  "fst ` set (AList.update k v d) = insert k (fst ` set d)"
  by (induction d) auto

lemma py_update_keys:
  "fst ` set (py_update d other) = fst ` set d \<union> fst ` set other"
  unfolding py_update_def
proof (induction other arbitrary: d)
  case Nil
  show ?case by simp
next
  case (Cons p other)
  obtain k v where p: "p = (k, v)" by (cases p)
  have "fst ` set (foldl (\<lambda>d (k, v). AList.update k v d) (AList.update k v d) other)
          = fst ` set (AList.update k v d) \<union> fst ` set other"
    by (rule Cons)
  then show ?case
    by (simp add: p update_key_set)
qed

lemma merge_result_marker_free:
  assumes "\<forall>ns m lang d. results ns = Some m \<longrightarrow> m lang = Some d
             \<longrightarrow> core_keys_marker \<notin> fst ` set d"
    and "core_keys_marker \<notin> fst ` set res"
  shows "\<forall>ns m lang d. merge_result results request res ns = Some m \<longrightarrow> m lang = Some d
             \<longrightarrow> core_keys_marker \<notin> fst ` set d"
proof (intro allI impI)
  fix ns m lang d
  assume m: "merge_result results request res ns = Some m" and d: "m lang = Some d"
  define by_language where
    "by_language = (case results (namespace request) of None \<Rightarrow> Map.empty | Some m \<Rightarrow> m)"
  define current where
    "current = (case by_language (target_lang request) of None \<Rightarrow> [] | Some d \<Rightarrow> d)"
  have old: "core_keys_marker \<notin> fst ` set d'" if "by_language lang' = Some d'" for lang' d'
  proof (cases "results (namespace request)")
    case None
    then show ?thesis using that by (simp add: by_language_def)
  next
    case (Some m')
    then have "m' lang' = Some d'" using that by (simp add: by_language_def)
    with Some assms(1) show ?thesis by blast
  qed
  have cur: "core_keys_marker \<notin> fst ` set current"
  proof (cases "by_language (target_lang request)")
    case None
    then show ?thesis by (simp add: current_def)
  next
    case (Some d')
    then show ?thesis using old [OF Some] by (simp add: current_def)
  qed
  have upd: "core_keys_marker \<notin> fst ` set (py_update current res)"
    using cur assms(2) by (simp add: py_update_keys)
  have mr: "merge_result results request res
          = results(namespace request \<mapsto> by_language(target_lang request \<mapsto> py_update current res))"
    by (simp add: merge_result_def Let_def by_language_def current_def)
  show "core_keys_marker \<notin> fst ` set d"
  proof (cases "ns = namespace request")
    case True
    then have "m = by_language(target_lang request \<mapsto> py_update current res)"
      using m mr by simp
    show ?thesis
    proof (cases "lang = target_lang request")
      case True
      then have "d = py_update current res" using d \<open>m = _\<close> by simp
      then show ?thesis using upd by simp
    next
      case False
      then have "by_language lang = Some d" using d \<open>m = _\<close> by simp
      then show ?thesis by (rule old)
    qed
  next
    case False
    then have "results ns = Some m" using m mr by simp
    then show ?thesis using assms(1) d by blast
  qed
qed

lemma exec_loop_marker_free:
  assumes "exec_loop dg r sv tx s = Some (res, s')"
  shows "core_keys_marker \<notin> fst ` set res"
  using exec_loop_keys [OF assms] by auto

lemma collect_marker_free:
  "\<forall>ns m lang d. results ns = Some m \<longrightarrow> m lang = Some d
       \<longrightarrow> core_keys_marker \<notin> fst ` set d \<Longrightarrow>
   \<forall>ns m lang d.
     foldl (\<lambda>results request.
              (case execute_translation_request dg (services (request_id request)) nt
                      (texts request) of
                 Some (res, s) \<Rightarrow> merge_result results request res
               | None \<Rightarrow> results))
       results completed ns = Some m \<longrightarrow> m lang = Some d
       \<longrightarrow> core_keys_marker \<notin> fst ` set d"
proof (induction completed arbitrary: results)
  case Nil
  then show ?case by simp
next
  case (Cons request completed)
  let ?f = "\<lambda>results request.
              (case execute_translation_request dg (services (request_id request)) nt
                      (texts request) of
                 Some (res, s) \<Rightarrow> merge_result results request res
               | None \<Rightarrow> results)"
  show ?case
  proof (cases "execute_translation_request dg (services (request_id request)) nt (texts request)")
    case None
    then have step: "foldl ?f results (request # completed) = foldl ?f results completed"
      by simp
    show ?thesis unfolding step by (rule Cons.IH [OF Cons.prems])
  next
    case (Some p)
    obtain res s where p: "p = (res, s)" by (cases p)
    have "core_keys_marker \<notin> fst ` set res"
      using Some p exec_loop_marker_free by (simp add: execute_translation_request_def)
    then have inv: "\<forall>ns m lang d. merge_result results request res ns = Some m
        \<longrightarrow> m lang = Some d \<longrightarrow> core_keys_marker \<notin> fst ` set d"
      by (rule merge_result_marker_free [OF Cons.prems])
    have step: "foldl ?f results (request # completed)
                  = foldl ?f (merge_result results request res) completed"
      using Some p by simp
    show ?thesis unfolding step by (rule Cons.IH [OF inv])
  qed
qed

text \<open>
  Claim C10. When an execution ends with a result that is not empty, the keys of the
  result are the keys of the request's payload without the marker key, so the marker key
  is not among them; and no dictionary of the collected results, under any namespace and
  language, has the marker key.
\<close>

theorem successful_result_keys:
  "(execute_translation_request dg sv nt tx = Some (res, s) \<and> res \<noteq> []
      \<longrightarrow> set (map fst res) = set (map fst tx) - {core_keys_marker}
        \<and> core_keys_marker \<notin> set (map fst res))
   \<and> (execute_requests_concurrently dg services nt completed ns = Some m \<and> m lang = Some d
      \<longrightarrow> core_keys_marker \<notin> set (map fst d))"
proof -
  have a: "set (map fst res) = set (map fst tx) - {core_keys_marker}
        \<and> core_keys_marker \<notin> set (map fst res)"
    if "execute_translation_request dg sv nt tx = Some (res, s)" and "res \<noteq> []"
    using exec_loop_keys [of dg MAX_INDIVIDUAL_RETRIES sv tx "initial_state nt" res s] that
    by (auto simp: execute_translation_request_def)
  have "\<forall>ns m lang d. execute_requests_concurrently dg services nt completed ns = Some m
          \<longrightarrow> m lang = Some d \<longrightarrow> core_keys_marker \<notin> fst ` set d"
    unfolding execute_requests_concurrently_def
    by (rule collect_marker_free) simp
  then have b: "core_keys_marker \<notin> set (map fst d)"
    if "execute_requests_concurrently dg services nt completed ns = Some m" and "m lang = Some d"
    using that by auto
  show ?thesis using a b by blast
qed

lemma successful_run:
  "\<exists>s. execute_translation_request dg (\<lambda>n t m. ContentObject [(''greeting'', Str ''Bonjour'')]) False
          [(''greeting'', Str ''Hello''), (core_keys_marker, StrList [''greeting''])]
        = Some ([(''greeting'', Str ''Bonjour'')], s)"
  by (simp add: execute_translation_request_def MAX_INDIVIDUAL_RETRIES_def initial_state_def
      exec_loop.simps run_attempt_def translate_batch_def core_keys_marker_def
      validate_translation_result_def check_key_def validate_placeholder_consistency_def
      Let_def)

theorem successful_result_keys_witness:
  "\<exists>res s m d.
     execute_translation_request (\<lambda>cp. False) (\<lambda>n t m. ContentObject [(''greeting'', Str ''Bonjour'')]) False
          [(''greeting'', Str ''Hello''), (core_keys_marker, StrList [''greeting''])]
        = Some (res, s)
     \<and> res \<noteq> []
     \<and> set (map fst res)
         = set (map fst [(''greeting'', Str ''Hello''), (core_keys_marker, StrList [''greeting''])])
           - {core_keys_marker}
     \<and> core_keys_marker \<notin> set (map fst res)
     \<and> execute_requests_concurrently (\<lambda>cp. False)
          (\<lambda>i n t m. ContentObject [(''greeting'', Str ''Bonjour'')]) False
          [\<lparr>request_id = 1,
            texts = [(''greeting'', Str ''Hello''), (core_keys_marker, StrList [''greeting''])],
            target_lang = ''fr_fr'', target_lang_name = ''French (France)'',
            namespace = ''pack'', batch_id = 1, total_batches = 1, batch_size = 2\<rparr>]
          ''pack'' = Some m
     \<and> m ''fr_fr'' = Some d
     \<and> d = [(''greeting'', Str ''Bonjour'')]
     \<and> core_keys_marker \<notin> set (map fst d)"
proof -
  let ?sv = "\<lambda>(n::nat) (t::real) (m::bool). ContentObject [(''greeting'', Str ''Bonjour'')]"
  let ?tx = "[(''greeting'', Str ''Hello''), (core_keys_marker, StrList [''greeting''])]"
  let ?req = "\<lparr>request_id = 1, texts = ?tx,
            target_lang = ''fr_fr'', target_lang_name = ''French (France)'',
            namespace = ''pack'', batch_id = 1, total_batches = 1, batch_size = 2\<rparr>"
  obtain s where s: "execute_translation_request (\<lambda>cp. False) ?sv False ?tx
                       = Some ([(''greeting'', Str ''Bonjour'')], s)"
    using successful_run by blast
  have ne: "[(''greeting'', Str ''Bonjour'')] \<noteq> []" by simp
  note t = successful_result_keys [of "\<lambda>cp. False" ?sv False ?tx "[(''greeting'', Str ''Bonjour'')]" s
      "\<lambda>i. ?sv" "[?req]" "''pack''"
      "Map.empty(''fr_fr'' \<mapsto> [(''greeting'', Str ''Bonjour'')])" "''fr_fr''"
      "[(''greeting'', Str ''Bonjour'')]"]
  have k: "set (map fst [(''greeting'', Str ''Bonjour'')]) = set (map fst ?tx) - {core_keys_marker}
        \<and> core_keys_marker \<notin> set (map fst [(''greeting'', Str ''Bonjour'')])"
    using t [THEN conjunct1, THEN mp, OF conjI [OF s ne]] .
  have run: "execute_requests_concurrently (\<lambda>cp. False) (\<lambda>i. ?sv) False [?req] ''pack''
               = Some (Map.empty(''fr_fr'' \<mapsto> [(''greeting'', Str ''Bonjour'')]))"
    using s by (simp add: execute_requests_concurrently_def merge_result_def py_update_def)
  have look: "(Map.empty(''fr_fr'' \<mapsto> [(''greeting'', Str ''Bonjour'')])) ''fr_fr''
               = Some [(''greeting'', Str ''Bonjour'')]" by simp
  have free: "core_keys_marker \<notin> set (map fst [(''greeting'', Str ''Bonjour'')])"
    using t [THEN conjunct2, THEN mp, OF conjI [OF run look]] .
  show ?thesis
    using s ne k run look free by blast
qed


section \<open>Properties of the cleanup\<close>













lemma cleanup_example_run:
  "perform_cleanup_extra_keys (\<lambda>p. True) [''pack'', ''empty'']
     [(''fr_fr'', ''French (France)'')]
     (\<lambda>ns. if ns = ''pack'' then Inr [(''greeting'', Str ''Hello'')] else Inr [])
     (\<lambda>p. ObjectFile [(''greeting'', Str ''Bonjour''), (''obsolete'', Str ''Vieux'')])
   = Inr ((\<lambda>p. ObjectFile [(''greeting'', Str ''Bonjour''), (''obsolete'', Str ''Vieux'')])
            ((''pack'', ''fr_fr'') := ObjectFile [(''greeting'', Str ''Bonjour'')]))"
  by (simp add: perform_cleanup_extra_keys_def cleanup_language_def
      save_namespace_translations_def)



text \<open>
  A store file that is a JSON array with an element outside the reference makes the pass
  raise at its first pair, and the file of the next pair keeps its extra key.
\<close>

lemma cleanup_stops_at_array_file:
  "perform_cleanup_extra_keys (\<lambda>p. True) [''pack'']
     [(''de_de'', ''German''), (''fr_fr'', ''French (France)'')]
     (\<lambda>ns. Inr [(''greeting'', Str ''Hello'')])
     (\<lambda>p. if p = (''pack'', ''de_de'') then ArrayFile [''obsolete'']
          else ObjectFile [(''obsolete'', Str ''Vieux'')])
   = Inl (TypeError,
          (\<lambda>p. if p = (''pack'', ''de_de'') then ArrayFile [''obsolete'']
               else ObjectFile [(''obsolete'', Str ''Vieux'')]))"
  by (simp add: perform_cleanup_extra_keys_def cleanup_language_def)

section \<open>Properties of the change detector\<close>

lemma set_order_Nil:
  assumes "\<And>ks. mset (set_order ks) = mset (ks :: string list)"
  shows "set_order [] = []"
  using assms [of "[]"] by simp








lemma index_deleted_counts:
  "index_deleted ds (idx, cnt) = (idx', cnt') \<Longrightarrow>
   (case cnt' v of None \<Rightarrow> 0 | Some n \<Rightarrow> n)
     = (case cnt v of None \<Rightarrow> 0 | Some n \<Rightarrow> n)
       + length (filter (\<lambda>d. old_value d = Some (Str v)) ds)"
proof (induction ds arbitrary: idx cnt)
  case Nil
  then show ?case by simp
next
  case (Cons d ds)
  show ?case
  proof (cases "\<exists>w. old_value d = Some (Str w)")
    case True
    then obtain w where w: "old_value d = Some (Str w)" by blast
    let ?cnt1 = "cnt(w \<mapsto> (case cnt w of None \<Rightarrow> 0 | Some n \<Rightarrow> n) + 1)"
    have "index_deleted ds (idx(w \<mapsto> d), ?cnt1) = (idx', cnt')"
      using Cons.prems w by simp
    from Cons.IH [OF this] show ?thesis using w by auto
  next
    case False
    then have "index_deleted ds (idx, cnt) = (idx', cnt')"
      using Cons.prems by (auto split: option.splits pyval.splits)
    from Cons.IH [OF this] show ?thesis using False by auto
  qed
qed

lemma index_deleted_entries:
  "index_deleted ds (idx, cnt) = (idx', cnt') \<Longrightarrow> idx' v = Some d \<Longrightarrow>
   idx v = Some d \<or> (d \<in> set ds \<and> old_value d = Some (Str v))"
proof (induction ds arbitrary: idx cnt)
  case Nil
  then show ?case by simp
next
  case (Cons e ds)
  show ?case
  proof (cases "\<exists>w. old_value e = Some (Str w)")
    case True
    then obtain w where w: "old_value e = Some (Str w)" by blast
    let ?cnt1 = "cnt(w \<mapsto> (case cnt w of None \<Rightarrow> 0 | Some n \<Rightarrow> n) + 1)"
    have "index_deleted ds (idx(w \<mapsto> e), ?cnt1) = (idx', cnt')"
      using Cons.prems(1) w by simp
    from Cons.IH [OF this Cons.prems(2)] show ?thesis using w by (auto split: if_splits)
  next
    case False
    then have "index_deleted ds (idx, cnt) = (idx', cnt')"
      using Cons.prems(1) by (auto split: option.splits pyval.splits)
    from Cons.IH [OF this Cons.prems(2)] show ?thesis by auto
  qed
qed

text \<open>The condition of line 155 for an added entry.\<close>

lemma rename_loop_invariants:
  "rename_loop idx cnt as (m, u, r) = (m', u', r') \<Longrightarrow>
   (\<forall>a \<in> set as.
      \<not> (\<exists>v d. new_value a = Some (Str v) \<and> idx v = Some d
               \<and> (case cnt v of None \<Rightarrow> 0 | Some n \<Rightarrow> n) = 1)
      \<longrightarrow> a \<in> set r')
   \<and> set r \<subseteq> set r'
   \<and> (\<forall>e \<in> set m'. e \<in> set m \<or>
        (\<exists>a \<in> set as. key e = key a
           \<and> (\<exists>v d. new_value a = Some (Str v) \<and> idx v = Some d
                  \<and> (case cnt v of None \<Rightarrow> 0 | Some n \<Rightarrow> n) = 1)))
   \<and> (\<forall>x \<in> set u'. x \<in> set u \<or>
        (\<exists>v d. idx v = Some d \<and> (case cnt v of None \<Rightarrow> 0 | Some n \<Rightarrow> n) = 1 \<and> x = key d))"
proof (induction as arbitrary: m u r)
  case Nil
  then show ?case by auto
next
  case (Cons a as)
  let ?elig = "\<lambda>a. \<exists>v d. new_value a = Some (Str v) \<and> idx v = Some d
               \<and> (case cnt v of None \<Rightarrow> 0 | Some n \<Rightarrow> n) = 1"
  show ?case
  proof (cases "\<exists>v d. new_value a = Some (Str v) \<and> idx v = Some d
               \<and> (case cnt v of None \<Rightarrow> 0 | Some n \<Rightarrow> n) = 1 \<and> key d \<notin> set u")
    case True
    then obtain v d where vd: "new_value a = Some (Str v)" "idx v = Some d"
      "(case cnt v of None \<Rightarrow> 0 | Some n \<Rightarrow> n) = 1" "key d \<notin> set u" by blast
    have "rename_loop idx cnt as
            (m @ [\<lparr>key = key a, old_value = old_value d, new_value = new_value a,
                   operation = MODIFIED\<rparr>], u @ [key d], r) = (m', u', r')"
      using Cons.prems vd by simp
    from Cons.IH [OF this] vd show ?thesis
      by (auto; blast)
  next
    case False
    then have "rename_loop idx cnt as (m, u, r @ [a]) = (m', u', r')"
      using Cons.prems by (auto split: option.splits pyval.splits if_splits)
    from Cons.IH [OF this] show ?thesis
      by (auto; blast)
  qed
qed

lemma two_members_length:
  assumes "x \<in> set xs" and "y \<in> set xs" and "x \<noteq> y"
  shows "2 \<le> length xs"
proof (cases xs)
  case Nil
  then show ?thesis using assms by simp
next
  case (Cons a ys)
  then show ?thesis using assms by (cases ys) auto
qed


lemma compare_snapshots_no_rename:
  assumes so: "\<And>ks. set (set_order ks) = set (ks :: string list)"
    and k: "k \<in> set (map fst new_d)" "k \<notin> set (map fst old_d)" "map_of new_d k = Some v"
    and amb: "(\<forall>s. v \<noteq> Str s)
        \<or> (\<exists>k1 k2. k1 \<noteq> k2
              \<and> k1 \<in> set (map fst old_d) - set (map fst new_d)
              \<and> k2 \<in> set (map fst old_d) - set (map fst new_d)
              \<and> map_of old_d k1 = Some v \<and> map_of old_d k2 = Some v)"
  shows "\<lparr>key = k, old_value = None, new_value = Some v, operation = ADDED\<rparr>
           \<in> set (added (compare_snapshots set_order old_d new_d))
       \<and> (\<forall>e \<in> set (modified (compare_snapshots set_order old_d new_d)). key e \<noteq> k)
       \<and> (\<forall>k'. k' \<in> set (map fst old_d) - set (map fst new_d) \<and> map_of old_d k' = Some v
             \<longrightarrow> \<lparr>key = k', old_value = Some v, new_value = None, operation = DELETED\<rparr>
                   \<in> set (deleted (compare_snapshots set_order old_d new_d)))"
proof -
  let ?mkA = "\<lambda>k. \<lparr>key = k, old_value = None, new_value = map_of new_d k, operation = ADDED\<rparr>"
  let ?mkD = "\<lambda>k. \<lparr>key = k, old_value = map_of old_d k, new_value = None, operation = DELETED\<rparr>"
  let ?mkM = "\<lambda>k. \<lparr>key = k, old_value = map_of old_d k, new_value = map_of new_d k,
                    operation = MODIFIED\<rparr>"
  define A where
    "A = map ?mkA (set_order (filter (\<lambda>k. k \<notin> set (map fst old_d)) (map fst new_d)))"
  define Dl where
    "Dl = map ?mkD (set_order (filter (\<lambda>k. k \<notin> set (map fst new_d)) (map fst old_d)))"
  define M where
    "M = map ?mkM (filter (\<lambda>k. map_of old_d k \<noteq> map_of new_d k)
                     (set_order (filter (\<lambda>k. k \<in> set (map fst new_d)) (map fst old_d))))"
  let ?ak = "\<lparr>key = k, old_value = None, new_value = Some v, operation = ADDED\<rparr>"
  have cs: "compare_snapshots set_order old_d new_d =
     (if A \<noteq> [] \<and> Dl \<noteq> [] then
        (let (deleted_index, deleted_value_counts) = index_deleted Dl (Map.empty, Map.empty);
             (modified_keys', used_deleted, added_remaining) =
                rename_loop deleted_index deleted_value_counts A (M, [], []);
             deleted_remaining = filter (\<lambda>d. key d \<notin> set used_deleted) Dl
         in \<lparr>added = added_remaining, deleted = deleted_remaining, modified = modified_keys'\<rparr>)
      else \<lparr>added = A, deleted = Dl, modified = M\<rparr>)"
    unfolding compare_snapshots_def A_def Dl_def M_def Let_def by (rule refl)
  have akA: "?ak \<in> set A"
  proof -
    have "k \<in> set (set_order (filter (\<lambda>k. k \<notin> set (map fst old_d)) (map fst new_d)))"
      using k(1,2) by (simp add: so)
    then have "?mkA k \<in> set A" unfolding A_def by simp
    then show ?thesis using k(3) by simp
  qed
  have A_form: "a = ?mkA (key a)" if "a \<in> set A" for a
    using that unfolding A_def by auto
  have M_keys: "key e \<in> set (map fst old_d)" if "e \<in> set M" for e
    using that unfolding M_def by (force simp: so)
  have D_mem: "?mkD k' \<in> set Dl" if "k' \<in> set (map fst old_d) - set (map fst new_d)" for k'
  proof -
    have "k' \<in> set (set_order (filter (\<lambda>k. k \<notin> set (map fst new_d)) (map fst old_d)))"
      using that by (simp add: so)
    then show ?thesis unfolding Dl_def by simp
  qed
  have D_form: "d = ?mkD (key d)" if "d \<in> set Dl" for d
    using that unfolding Dl_def by auto
  show ?thesis
  proof (cases "A \<noteq> [] \<and> Dl \<noteq> []")
    case False
    have r: "compare_snapshots set_order old_d new_d = \<lparr>added = A, deleted = Dl, modified = M\<rparr>"
      unfolding cs by (rule if_not_P [OF False])
    have "\<forall>e \<in> set M. key e \<noteq> k" using M_keys k(2) by blast
    moreover have "\<forall>k'. k' \<in> set (map fst old_d) - set (map fst new_d) \<and> map_of old_d k' = Some v
             \<longrightarrow> \<lparr>key = k', old_value = Some v, new_value = None, operation = DELETED\<rparr> \<in> set Dl"
      using D_mem by force
    ultimately show ?thesis using akA by (simp add: r)
  next
    case True
    obtain idx cnt where ic: "index_deleted Dl (Map.empty, Map.empty) = (idx, cnt)"
      by (cases "index_deleted Dl (Map.empty, Map.empty)")
    obtain m' u r where mur: "rename_loop idx cnt A (M, [], []) = (m', u, r)"
      by (cases "rename_loop idx cnt A (M, [], [])")
    have "compare_snapshots set_order old_d new_d =
        (let (deleted_index, deleted_value_counts) = index_deleted Dl (Map.empty, Map.empty);
             (modified_keys', used_deleted, added_remaining) =
                rename_loop deleted_index deleted_value_counts A (M, [], []);
             deleted_remaining = filter (\<lambda>d. key d \<notin> set used_deleted) Dl
         in \<lparr>added = added_remaining, deleted = deleted_remaining, modified = modified_keys'\<rparr>)"
      unfolding cs by (rule if_P [OF True])
    then have res: "compare_snapshots set_order old_d new_d
                 = \<lparr>added = r, deleted = filter (\<lambda>d. key d \<notin> set u) Dl, modified = m'\<rparr>"
      using ic mur by simp
    have count: "(case cnt s of None \<Rightarrow> 0 | Some n \<Rightarrow> n)
                   = length (filter (\<lambda>d. old_value d = Some (Str s)) Dl)" for s
      using index_deleted_counts [OF ic, of s] by simp
    have not_unique: "(case cnt s of None \<Rightarrow> 0 | Some n \<Rightarrow> n) \<noteq> 1" if "v = Str s" for s
    proof -
      from amb that obtain k1 k2 where kk: "k1 \<noteq> k2"
        "k1 \<in> set (map fst old_d) - set (map fst new_d)"
        "k2 \<in> set (map fst old_d) - set (map fst new_d)"
        "map_of old_d k1 = Some (Str s)" "map_of old_d k2 = Some (Str s)" by blast
      have "?mkD k1 \<in> set (filter (\<lambda>d. old_value d = Some (Str s)) Dl)"
        "?mkD k2 \<in> set (filter (\<lambda>d. old_value d = Some (Str s)) Dl)"
        using D_mem [OF kk(2)] D_mem [OF kk(3)] kk(4,5) by simp_all
      moreover have "?mkD k1 \<noteq> ?mkD k2" using kk(1) by simp
      ultimately have "2 \<le> length (filter (\<lambda>d. old_value d = Some (Str s)) Dl)"
        by (rule two_members_length)
      then show ?thesis using count [of s] by simp
    qed
    have not_elig: "\<not> (\<exists>s d. new_value ?ak = Some (Str s) \<and> idx s = Some d
               \<and> (case cnt s of None \<Rightarrow> 0 | Some n \<Rightarrow> n) = 1)"
      using not_unique by auto
    note inv = rename_loop_invariants [OF mur]
    have 1: "?ak \<in> set r"
      using inv akA not_elig by blast
    have 2: "key e \<noteq> k" if e: "e \<in> set m'" for e
    proof
      assume ek: "key e = k"
      from inv e have "e \<in> set M \<or>
        (\<exists>a \<in> set A. key e = key a
           \<and> (\<exists>s d. new_value a = Some (Str s) \<and> idx s = Some d
                  \<and> (case cnt s of None \<Rightarrow> 0 | Some n \<Rightarrow> n) = 1))" by blast
      then show False
      proof
        assume "e \<in> set M"
        then show False using M_keys ek k(2) by blast
      next
        assume "\<exists>a \<in> set A. key e = key a
           \<and> (\<exists>s d. new_value a = Some (Str s) \<and> idx s = Some d
                  \<and> (case cnt s of None \<Rightarrow> 0 | Some n \<Rightarrow> n) = 1)"
        then obtain a where a: "a \<in> set A" "key e = key a"
          "\<exists>s d. new_value a = Some (Str s) \<and> idx s = Some d
                  \<and> (case cnt s of None \<Rightarrow> 0 | Some n \<Rightarrow> n) = 1" by blast
        have "a = ?ak" using A_form [OF a(1)] a(2) ek k(3) by simp
        then show False using a(3) not_elig by blast
      qed
    qed
    have 3: "\<lparr>key = k', old_value = Some v, new_value = None, operation = DELETED\<rparr>
               \<in> set (filter (\<lambda>d. key d \<notin> set u) Dl)"
      if k': "k' \<in> set (map fst old_d) - set (map fst new_d)" "map_of old_d k' = Some v" for k'
    proof -
      have mem: "\<lparr>key = k', old_value = Some v, new_value = None, operation = DELETED\<rparr> \<in> set Dl"
        using D_mem [OF k'(1)] k'(2) by simp
      have "k' \<notin> set u"
      proof
        assume "k' \<in> set u"
        with inv obtain s d where sd: "idx s = Some d"
          "(case cnt s of None \<Rightarrow> 0 | Some n \<Rightarrow> n) = 1" "k' = key d" by auto
        from index_deleted_entries [OF ic sd(1)]
        have d: "d \<in> set Dl" "old_value d = Some (Str s)" by simp_all
        have "d = ?mkD k'" using D_form [OF d(1)] sd(3) by simp
        then have "v = Str s" using d(2) k'(2) by simp
        then show False using not_unique sd(2) by blast
      qed
      then show ?thesis using mem by simp
    qed
    show ?thesis using 1 2 3 by (simp add: res)
  qed
qed


lemma set_order_single:
  assumes "\<And>ks. mset (set_order ks) = mset (ks :: string list)"
  shows "set_order [x] = [x]"
  using assms [of "[x]"] by simp

text \<open>
  Claim C5. Whatever the order in which Python iterates a set: for the old mapping with
  the one entry \<open>a\<close> and the new mapping with the one entry \<open>b\<close>, both with the value
  \<open>Hello\<close>, the result has the one modified entry with key \<open>b\<close>, old value \<open>Hello\<close>
  and new value \<open>Hello\<close>, and no added and no deleted entry. And for any two mappings
  and any added key whose value is not a string, or is the value of two different deleted
  keys: the key stays an addition, no modified entry has that key, and every deletion
  with that value stays a deletion.
\<close>

theorem rename_detection:
  assumes "\<And>ks. mset (set_order ks) = mset (ks :: string list)"
  shows "get_file_key_changes set_order (Object [(''a'', Str ''Hello'')])
           (Object [(''b'', Str ''Hello'')])
         = Some \<lparr>added = [], deleted = [],
                 modified = [\<lparr>key = ''b'', old_value = Some (Str ''Hello''),
                              new_value = Some (Str ''Hello''), operation = MODIFIED\<rparr>]\<rparr>
       \<and> (get_file_key_changes set_order (Object old_d) (Object new_d) = Some r
            \<and> k \<in> set (map fst new_d) \<and> k \<notin> set (map fst old_d) \<and> map_of new_d k = Some v
            \<and> ((\<forall>s. v \<noteq> Str s)
               \<or> (\<exists>k1 k2. k1 \<noteq> k2
                     \<and> k1 \<in> set (map fst old_d) - set (map fst new_d)
                     \<and> k2 \<in> set (map fst old_d) - set (map fst new_d)
                     \<and> map_of old_d k1 = Some v \<and> map_of old_d k2 = Some v))
          \<longrightarrow> \<lparr>key = k, old_value = None, new_value = Some v, operation = ADDED\<rparr> \<in> set (added r)
            \<and> (\<forall>e \<in> set (modified r). key e \<noteq> k)
            \<and> (\<forall>k'. k' \<in> set (map fst old_d) - set (map fst new_d) \<and> map_of old_d k' = Some v
                  \<longrightarrow> \<lparr>key = k', old_value = Some v, new_value = None, operation = DELETED\<rparr>
                        \<in> set (deleted r)))"
proof -
  have so: "set (set_order ks) = set ks" for ks
    using assms [of ks] by (metis set_mset_mset)
  have ex: "get_file_key_changes set_order (Object [(''a'', Str ''Hello'')])
           (Object [(''b'', Str ''Hello'')])
         = Some \<lparr>added = [], deleted = [],
                 modified = [\<lparr>key = ''b'', old_value = Some (Str ''Hello''),
                              new_value = Some (Str ''Hello''), operation = MODIFIED\<rparr>]\<rparr>"
    by (simp add: get_file_key_changes_def compare_snapshots_def
        set_order_single [OF assms] set_order_Nil [OF assms])
  have gen: "\<lparr>key = k, old_value = None, new_value = Some v, operation = ADDED\<rparr> \<in> set (added r)
            \<and> (\<forall>e \<in> set (modified r). key e \<noteq> k)
            \<and> (\<forall>k'. k' \<in> set (map fst old_d) - set (map fst new_d) \<and> map_of old_d k' = Some v
                  \<longrightarrow> \<lparr>key = k', old_value = Some v, new_value = None, operation = DELETED\<rparr>
                        \<in> set (deleted r))"
    if "get_file_key_changes set_order (Object old_d) (Object new_d) = Some r"
      and "k \<in> set (map fst new_d)" and "k \<notin> set (map fst old_d)" and "map_of new_d k = Some v"
      and "(\<forall>s. v \<noteq> Str s)
               \<or> (\<exists>k1 k2. k1 \<noteq> k2
                     \<and> k1 \<in> set (map fst old_d) - set (map fst new_d)
                     \<and> k2 \<in> set (map fst old_d) - set (map fst new_d)
                     \<and> map_of old_d k1 = Some v \<and> map_of old_d k2 = Some v)"
  proof -
    have "r = compare_snapshots set_order old_d new_d"
      using that(1) by (simp add: get_file_key_changes_def)
    then show ?thesis
      using compare_snapshots_no_rename [of set_order k new_d old_d v, OF so that(2-5)]
      by simp
  qed
  show ?thesis using ex gen by blast
qed

theorem rename_detection_witness:
  "(\<forall>ks. mset ((\<lambda>ks. ks) ks) = mset (ks :: string list))
   \<and> get_file_key_changes (\<lambda>ks. ks)
        (Object [(''a'', Str ''Hello''), (''c'', Str ''Hello'')]) (Object [(''b'', Str ''Hello'')])
      = Some \<lparr>added = [\<lparr>key = ''b'', old_value = None, new_value = Some (Str ''Hello''),
                         operation = ADDED\<rparr>],
              deleted = [\<lparr>key = ''a'', old_value = Some (Str ''Hello''), new_value = None,
                           operation = DELETED\<rparr>,
                         \<lparr>key = ''c'', old_value = Some (Str ''Hello''), new_value = None,
                           operation = DELETED\<rparr>],
              modified = []\<rparr>
   \<and> ''b'' \<in> set (map fst [(''b'', Str ''Hello'')])
   \<and> ''b'' \<notin> set (map fst [(''a'', Str ''Hello''), (''c'', Str ''Hello'')])
   \<and> map_of [(''b'', Str ''Hello'')] ''b'' = Some (Str ''Hello'')
   \<and> (\<exists>k1 k2. k1 \<noteq> k2
          \<and> k1 \<in> set (map fst [(''a'', Str ''Hello''), (''c'', Str ''Hello'')])
                 - set (map fst [(''b'', Str ''Hello'')])
          \<and> k2 \<in> set (map fst [(''a'', Str ''Hello''), (''c'', Str ''Hello'')])
                 - set (map fst [(''b'', Str ''Hello'')])
          \<and> map_of [(''a'', Str ''Hello''), (''c'', Str ''Hello'')] k1 = Some (Str ''Hello'')
          \<and> map_of [(''a'', Str ''Hello''), (''c'', Str ''Hello'')] k2 = Some (Str ''Hello''))
   \<and> \<lparr>key = ''b'', old_value = None, new_value = Some (Str ''Hello''), operation = ADDED\<rparr>
        \<in> set (added (the (get_file_key_changes (\<lambda>ks. ks)
              (Object [(''a'', Str ''Hello''), (''c'', Str ''Hello'')])
              (Object [(''b'', Str ''Hello'')]))))
   \<and> \<not> (\<exists>e \<in> set (modified (the (get_file_key_changes (\<lambda>ks. ks)
              (Object [(''a'', Str ''Hello''), (''c'', Str ''Hello'')])
              (Object [(''b'', Str ''Hello'')])))). key e = ''b'')"
proof -
  let ?old = "[(''a'', Str ''Hello''), (''c'', Str ''Hello'')]"
  let ?new = "[(''b'', Str ''Hello'')]"
  let ?r = "\<lparr>added = [\<lparr>key = ''b'', old_value = None, new_value = Some (Str ''Hello''),
                         operation = ADDED\<rparr>],
              deleted = [\<lparr>key = ''a'', old_value = Some (Str ''Hello''), new_value = None,
                           operation = DELETED\<rparr>,
                         \<lparr>key = ''c'', old_value = Some (Str ''Hello''), new_value = None,
                           operation = DELETED\<rparr>],
              modified = []\<rparr>"
  have h: "\<And>ks. mset ((\<lambda>ks. ks) ks) = mset (ks :: string list)" by simp
  have run: "get_file_key_changes (\<lambda>ks. ks) (Object ?old) (Object ?new) = Some ?r"
    by (simp add: get_file_key_changes_def compare_snapshots_def)
  have 1: "''b'' \<in> set (map fst ?new)" by simp
  have 2: "''b'' \<notin> set (map fst ?old)" by simp
  have 3: "map_of ?new ''b'' = Some (Str ''Hello'')" by simp
  have 4: "\<exists>k1 k2. k1 \<noteq> k2
          \<and> k1 \<in> set (map fst ?old) - set (map fst ?new)
          \<and> k2 \<in> set (map fst ?old) - set (map fst ?new)
          \<and> map_of ?old k1 = Some (Str ''Hello'')
          \<and> map_of ?old k2 = Some (Str ''Hello'')"
    by (rule exI [of _ "''a''"], rule exI [of _ "''c''"]) simp
  note t = rename_detection [of "\<lambda>ks. ks" ?old ?new ?r "''b''" "Str ''Hello''", OF h,
      THEN conjunct2, THEN mp, OF conjI [OF run conjI [OF 1 conjI [OF 2 conjI [OF 3 disjI2 [OF 4]]]]]]
  have 5: "\<lparr>key = ''b'', old_value = None, new_value = Some (Str ''Hello''), operation = ADDED\<rparr>
        \<in> set (added (the (get_file_key_changes (\<lambda>ks. ks) (Object ?old) (Object ?new))))"
    using t [THEN conjunct1] by (simp only: run option.sel)
  have 6: "\<not> (\<exists>e \<in> set (modified (the (get_file_key_changes (\<lambda>ks. ks)
              (Object ?old) (Object ?new)))). key e = ''b'')"
    using t [THEN conjunct2, THEN conjunct1] by (simp only: run option.sel) blast
  have h': "\<forall>ks. mset ((\<lambda>ks. ks) ks) = mset (ks :: string list)" by simp
  show ?thesis
    using h' run 1 2 3 4 5 6 by (intro conjI)
qed


end
